theory Spec2Isabelle
  imports Complex_Main
begin

section \<open>Data model\<close>

text \<open>
  The email entity of \<^verbatim>\<open>email_sync.service.ts\<close>: the seven columns written by the
  sync code, the \<^verbatim>\<open>summary\<close> column read by \<^verbatim>\<open>prepareTextForEmbedding\<close> and the
  nullable \<^verbatim>\<open>embedding\<close> vector. User ids and page counters are JavaScript numbers
  that only ever hold integers; they are \<^typ>\<open>int\<close>. A vector is a list of numbers
  of which the code only inspects the length.
\<close>

record Email =
  email_id :: string
  threadId :: string
  snippet :: string
  internalDate :: string
  subject :: string
  sender :: string
  userId :: int
  summary :: "string option"
  embedding :: "real list option"

text \<open>
  A listed message (\<^verbatim>\<open>gmail_v1.Schema$Message\<close>). The source reads \<^verbatim>\<open>msg.id!\<close> and
  \<^verbatim>\<open>msg.threadId!\<close>, so both are strings here; \<^verbatim>\<open>m.id || ''\<close> is then \<^verbatim>\<open>m.id\<close>.
\<close>

record message =
  msg_id :: string
  msg_threadId :: string

record header =
  h_name :: "string option"
  h_value :: "string option"

text \<open>The \<^verbatim>\<open>data\<close> of a \<^verbatim>\<open>users.messages.get\<close> response; \<^verbatim>\<open>d_headers\<close> is \<^verbatim>\<open>payload?.headers\<close>.\<close>

record detail =
  d_threadId :: "string option"
  d_snippet :: "string option"
  d_internalDate :: "string option"
  d_headers :: "header list option"

record list_res =
  lr_messages :: "message list option"
  lr_nextPageToken :: "string option"

text \<open>
  One record of the history feed. Each entry of \<^verbatim>\<open>messagesAdded\<close> and
  \<^verbatim>\<open>messagesDeleted\<close> is reduced to \<^verbatim>\<open>message?.id\<close>, the only part the code reads.
\<close>

record history_record =
  messagesAdded :: "string option list option"
  messagesDeleted :: "string option list option"

record history_res =
  history :: "history_record list option"
  nextPageToken :: "string option"
  historyId :: "string option"

record profile =
  p_historyId :: "string option"

text \<open>The error taxonomy of the remote collaborators; every rejected promise is one of these.\<close>

datatype error = TransientNetworkError | NotFound | HistoryExpired | AuthError | RateLimited

record gmail_client =
  messages_get :: "string \<Rightarrow> error + detail"
  messages_list :: "string option \<Rightarrow> error + list_res"

text \<open>
  The collaborators whose code is not part of the sync engine, taken as parameters:
  the remote operations of \<^verbatim>\<open>GmailService\<close> and \<^verbatim>\<open>OpenRouterService\<close>.
  \<^verbatim>\<open>getMailboxHistory(userId, startHistoryId, maxResults, pageToken)\<close> keeps its four
  arguments.
\<close>

record remote =
  getAuthenticatedGmailClient :: "int \<Rightarrow> error + gmail_client"
  getProfile :: "int \<Rightarrow> error + profile"
  getMailboxHistory :: "int \<Rightarrow> string option \<Rightarrow> nat option \<Rightarrow> string option \<Rightarrow> error + history_res"
  generateEmbedding :: "string \<Rightarrow> error + real list"

text \<open>\<^verbatim>\<open>EmailSyncEvent(userId, pageToken?, pageCount, deletedEmailIds?)\<close>.\<close>

record EmailSyncEvent =
  ev_userId :: int
  pageToken :: "string option"
  pageCount :: int
  deletedEmailIds :: "string list option"

text \<open>
  Everything the engine does to the outside, in the order it does it: remote calls,
  writes to the email table and to the cursor, emitted events, notifications and the
  inter-page delay.
\<close>

datatype action =
    Call_auth int
  | Call_profile int
  | Call_history int "string option" "nat option" "string option"
  | Call_list "string option"
  | Call_get string
  | Call_embedding string
  | Db_save "Email list"
  | Db_delete int "string list"
  | Set_cursor int string
  | Emit_sync EmailSyncEvent
  | Emit_embedding int "string list" int
  | Notify int "string list"
  | Sleep nat

record world =
  emails :: "Email list"
  lastHistoryId :: "int \<Rightarrow> string option"
  trace :: "action list"

definition log_actions :: "action list \<Rightarrow> world \<Rightarrow> world" where
  "log_actions as w = w\<lparr>trace := trace w @ as\<rparr>"

text \<open>JavaScript truthiness of an optional string: present and not empty.\<close>

definition truthy :: "string option \<Rightarrow> bool" where
  "truthy s = (case s of None \<Rightarrow> False | Some t \<Rightarrow> t \<noteq> [])"

text \<open>\<^verbatim>\<open>x ?? ''\<close> on an optional string (for strings \<^verbatim>\<open>x || ''\<close> is the same value).\<close>

definition or_empty :: "string option \<Rightarrow> string" where
  "or_empty s = (case s of None \<Rightarrow> [] | Some t \<Rightarrow> t)"

section \<open>The Local Mailbox Store\<close>

text \<open>
  \<^verbatim>\<open>emailRepository.find({ where: { id: In(ids) }, select: ['id'] })\<close>: the ids of the
  rows whose id is among \<open>ids\<close>, whoever owns them.
\<close>

definition find_ids :: "string list \<Rightarrow> Email list \<Rightarrow> string list" where
  "find_ids ids rows = map email_id (filter (\<lambda>e. email_id e \<in> set ids) rows)"

text \<open>\<^verbatim>\<open>emailRepository.find({ where: { userId }, select: ['id'] })\<close>.\<close>

definition find_user_ids :: "int \<Rightarrow> Email list \<Rightarrow> string list" where
  "find_user_ids u rows = map email_id (filter (\<lambda>e. userId e = u) rows)"

text \<open>
  Modelled from the spec: the email entity and its primary key are not among the
  sources. \<^verbatim>\<open>saveBatch(records)\<close> writes each record in turn; the store keeps
  \<^verbatim>\<open>(userId, id)\<close> unique, so a record whose \<^verbatim>\<open>(userId, id)\<close> is already stored replaces
  that row and any other record is appended.
\<close>

fun upsert :: "Email \<Rightarrow> Email list \<Rightarrow> Email list" where
  "upsert e [] = [e]"
| "upsert e (r # rs) =
     (if email_id r = email_id e \<and> userId r = userId e then e # rs else r # upsert e rs)"

definition save :: "Email list \<Rightarrow> Email list \<Rightarrow> Email list" where
  "save batch rows = foldl (\<lambda>rs e. upsert e rs) rows batch"

text \<open>\<^verbatim>\<open>emailRepository.delete({ id: In(ids), userId })\<close>.\<close>

definition delete_rows :: "int \<Rightarrow> string list \<Rightarrow> Email list \<Rightarrow> Email list" where
  "delete_rows u ids rows = filter (\<lambda>e. \<not> (email_id e \<in> set ids \<and> userId e = u)) rows"

text \<open>
  Modelled from the spec: \<^verbatim>\<open>GmailService.getLastHistoryId\<close> and
  \<^verbatim>\<open>GmailService.updateLastHistoryId\<close> are not among the sources; they are the store's
  \<^verbatim>\<open>getCursor(userId) -> historyId | absent\<close> and \<^verbatim>\<open>setCursor(userId, historyId)\<close>.
\<close>

definition getLastHistoryId :: "int \<Rightarrow> world \<Rightarrow> string option" where
  "getLastHistoryId u w = lastHistoryId w u"

definition updateLastHistoryId :: "int \<Rightarrow> string \<Rightarrow> world \<Rightarrow> world" where
  "updateLastHistoryId u h w =
     w\<lparr>lastHistoryId := (lastHistoryId w)(u := Some h), trace := trace w @ [Set_cursor u h]\<rparr>"

section \<open>The Batch Detail Fetcher\<close>

definition getHeader :: "header list \<Rightarrow> string \<Rightarrow> string" where
  "getHeader headers name =
     (case find (\<lambda>h. h_name h = Some name) headers of
        None \<Rightarrow> []
      | Some h \<Rightarrow> or_empty (h_value h))"

text \<open>
  The body of the \<^verbatim>\<open>messagesToFetch.map(async (msg) => ...)\<close> callback: the record
  built from a successful \<^verbatim>\<open>messages.get\<close>, or \<^verbatim>\<open>null\<close> when the call is rejected.
\<close>

definition fetchMessage :: "int \<Rightarrow> gmail_client \<Rightarrow> message \<Rightarrow> Email option" where
  "fetchMessage u g msg =
     (case messages_get g (msg_id msg) of
        Inl e \<Rightarrow> None
      | Inr d \<Rightarrow>
          (let headers = (case d_headers d of None \<Rightarrow> [] | Some hs \<Rightarrow> hs)
           in Some \<lparr>email_id = msg_id msg, threadId = msg_threadId msg,
                    snippet = or_empty (d_snippet d),
                    internalDate = or_empty (d_internalDate d),
                    subject = getHeader headers ''Subject'',
                    sender = getHeader headers ''From'',
                    userId = u, summary = None, embedding = None\<rparr>))"

definition processAndSaveBatch ::
  "int \<Rightarrow> message list \<Rightarrow> gmail_client \<Rightarrow> world \<Rightarrow> string list \<times> world" where
  "processAndSaveBatch u messages g w =
     (if messages = [] then ([], w)
      else
        let existingIds = find_ids (map msg_id messages) (emails w);
            messagesToFetch = filter (\<lambda>m. msg_id m \<notin> set existingIds) messages
        in if messagesToFetch = [] then ([], w)
           else
             let w1 = log_actions (map (\<lambda>m. Call_get (msg_id m)) messagesToFetch) w;
                 fetchedEmails = map (fetchMessage u g) messagesToFetch;
                 validEmails = List.map_filter (\<lambda>e. e) fetchedEmails
             in if validEmails \<noteq> []
                then (map email_id validEmails,
                      log_actions [Db_save validEmails]
                        (w1\<lparr>emails := save validEmails (emails w1)\<rparr>))
                else ([], w1))"

section \<open>Diff-mode reconciliation\<close>

text \<open>
  \<^verbatim>\<open>Array.from(new Set(xs))\<close>: a JavaScript set iterates in insertion order, so each
  value stays at its first occurrence.
\<close>

primrec Array_from_Set :: "string list \<Rightarrow> string list" where
  "Array_from_Set [] = []"
| "Array_from_Set (x # xs) = x # filter (\<lambda>y. y \<noteq> x) (Array_from_Set xs)"

definition syncEmailsWithDeletion ::
  "int \<Rightarrow> message list \<Rightarrow> gmail_client \<Rightarrow> world \<Rightarrow> (string list \<times> string list) \<times> world" where
  "syncEmailsWithDeletion u messages g w =
     (let dbEmailIds = find_user_ids u (emails w);
          deletedEmailIds =
            filter (\<lambda>i. i \<notin> set (map msg_id messages)) (Array_from_Set dbEmailIds);
          messagesToFetch = filter (\<lambda>m. msg_id m \<notin> set dbEmailIds) messages;
          (newEmailIds, w2) =
            (if messagesToFetch \<noteq> []
             then
               let w1 = log_actions (map (\<lambda>m. Call_get (msg_id m)) messagesToFetch) w;
                   fetchedEmails = map (fetchMessage u g) messagesToFetch;
                   validEmails = List.map_filter (\<lambda>e. e) fetchedEmails
               in if validEmails \<noteq> []
                  then (map email_id validEmails,
                        log_actions [Db_save validEmails]
                          (w1\<lparr>emails := save validEmails (emails w1)\<rparr>))
                  else ([], w1)
             else ([], w));
          w3 = (if deletedEmailIds \<noteq> []
                then log_actions [Db_delete u deletedEmailIds]
                       (w2\<lparr>emails := delete_rows u deletedEmailIds (emails w2)\<rparr>)
                else w2)
      in ((newEmailIds, deletedEmailIds), w3))"

section \<open>History sync\<close>

text \<open>
  The ids pushed by one \<^verbatim>\<open>for (const { message } of ...)\<close> loop: those with
  \<^verbatim>\<open>message?.id\<close> present and truthy.
\<close>

definition valid_ids :: "string option list option \<Rightarrow> string list" where
  "valid_ids entries =
     (case entries of
        None \<Rightarrow> []
      | Some ms \<Rightarrow> filter (\<lambda>i. i \<noteq> []) (List.map_filter (\<lambda>x. x) ms))"

definition fetchHistoryEmail :: "int \<Rightarrow> gmail_client \<Rightarrow> string \<Rightarrow> Email option" where
  "fetchHistoryEmail u g emailId =
     (case messages_get g emailId of
        Inl e \<Rightarrow> None
      | Inr d \<Rightarrow>
          (let headers = (case d_headers d of None \<Rightarrow> [] | Some hs \<Rightarrow> hs)
           in Some \<lparr>email_id = emailId, threadId = or_empty (d_threadId d),
                    snippet = or_empty (d_snippet d),
                    internalDate = or_empty (d_internalDate d),
                    subject = getHeader headers ''Subject'',
                    sender = getHeader headers ''From'',
                    userId = u, summary = None, embedding = None\<rparr>))"

text \<open>
  A function that can throw returns the error (\<open>Inl\<close>) or its value (\<open>Inr\<close>) together
  with the world as it is at that moment: what was written before a throw stays written.
\<close>

definition processHistoryRecords ::
  "remote \<Rightarrow> int \<Rightarrow> history_res \<Rightarrow> world \<Rightarrow> (error + string list \<times> string list) \<times> world" where
  "processHistoryRecords R u historyRes w =
     (let hist = (case history historyRes of None \<Rightarrow> [] | Some h \<Rightarrow> h);
          newEmailIds = concat (map (\<lambda>r. valid_ids (messagesAdded r)) hist);
          deletedEmailIds = concat (map (\<lambda>r. valid_ids (messagesDeleted r)) hist);
          (thrown, w3) =
            (if newEmailIds \<noteq> []
             then
               let w1 = log_actions [Call_auth u] w
               in case getAuthenticatedGmailClient R u of
                    Inl e \<Rightarrow> (Some e, w1)
                  | Inr gmailClient \<Rightarrow>
                      let w2 = log_actions (map Call_get newEmailIds) w1;
                          fetchedEmails = map (fetchHistoryEmail u gmailClient) newEmailIds;
                          validEmails = List.map_filter (\<lambda>e. e) fetchedEmails
                      in if validEmails \<noteq> []
                         then
                           let existingIds = find_ids (map email_id validEmails) (emails w2);
                               emailsToSave =
                                 filter (\<lambda>e. email_id e \<notin> set existingIds) validEmails
                           in if emailsToSave \<noteq> []
                              then (None, log_actions [Db_save emailsToSave]
                                            (w2\<lparr>emails := save emailsToSave (emails w2)\<rparr>))
                              else (None, w2)
                         else (None, w2)
             else (None, w))
      in case thrown of
           Some e \<Rightarrow> (Inl e, w3)
         | None \<Rightarrow>
             let w4 = (if deletedEmailIds \<noteq> []
                       then log_actions [Db_delete u deletedEmailIds]
                              (w3\<lparr>emails := delete_rows u deletedEmailIds (emails w3)\<rparr>)
                       else w3);
                 w5 = (case historyId historyRes of
                         None \<Rightarrow> w4
                       | Some h \<Rightarrow> if h \<noteq> [] then updateLastHistoryId u h w4 else w4)
             in (Inr (newEmailIds, deletedEmailIds), w5))"

definition syncEmailsWithHistory ::
  "remote \<Rightarrow> int \<Rightarrow> world \<Rightarrow> (error + string list \<times> string list) \<times> world" where
  "syncEmailsWithHistory R u w =
     (let lastHistoryId = getLastHistoryId u w
      in if \<not> truthy lastHistoryId
         then
           let w1 = log_actions [Call_profile u] w
           in case getProfile R u of
                Inl e \<Rightarrow> (Inl e, w1)
              | Inr profile \<Rightarrow>
                  let lastHistoryId' =
                        (if truthy (p_historyId profile) then p_historyId profile else None);
                      w2 = (case lastHistoryId' of
                              None \<Rightarrow> w1
                            | Some h \<Rightarrow> updateLastHistoryId u h w1)
                  in (Inr ([], []), w2)
         else
           let w1 = log_actions [Call_history u lastHistoryId None None] w
           in case getMailboxHistory R u lastHistoryId None None of
                Inl e \<Rightarrow> (Inl e, w1)
              | Inr historyRes \<Rightarrow> processHistoryRecords R u historyRes w1)"

section \<open>The sync listener\<close>

definition MAX_PAGES :: int where
  "MAX_PAGES = 10"

text \<open>
  \<^verbatim>\<open>handleSyncOldEmails\<close> returns nothing and catches every error of its three
  branches, so it is a function from world to world; an emitted event is recorded, not
  run.
\<close>

definition handleSyncOldEmails :: "remote \<Rightarrow> EmailSyncEvent \<Rightarrow> world \<Rightarrow> world" where
  "handleSyncOldEmails R payload w =
     (let u = ev_userId payload in
      if pageCount payload = 0
      then
        (case syncEmailsWithHistory R u w of
           (Inl e, w1) \<Rightarrow> w1
         | (Inr (newEmailIds, firstDeletedIds), w1) \<Rightarrow>
             let allChangedEmailIds = newEmailIds @ firstDeletedIds;
                 w2 = (if allChangedEmailIds \<noteq> []
                       then log_actions [Notify u allChangedEmailIds] w1 else w1);
                 w3 = (if newEmailIds \<noteq> []
                       then log_actions [Emit_embedding u newEmailIds 1] w2 else w2);
                 start = (if truthy (getLastHistoryId u w3)
                          then getLastHistoryId u w3 else None);
                 w4 = log_actions [Call_history u start None None] w3
             in (case getMailboxHistory R u start None None of
                   Inl e \<Rightarrow> w4
                 | Inr historyRes \<Rightarrow>
                     if truthy (nextPageToken historyRes)
                     then log_actions
                            [Sleep 1000,
                             Emit_sync \<lparr>ev_userId = u, pageToken = nextPageToken historyRes,
                                        pageCount = 1,
                                        deletedEmailIds = Some firstDeletedIds\<rparr>] w4
                     else w4))
      else if pageCount payload = 1 \<and> truthy (pageToken payload)
      then
        (let w1 = log_actions [Call_history u None (Some 100) (pageToken payload)] w
         in case getMailboxHistory R u None (Some 100) (pageToken payload) of
              Inl e \<Rightarrow> w1
            | Inr historyRes \<Rightarrow>
                (case processHistoryRecords R u historyRes w1 of
                   (Inl e, w2) \<Rightarrow> w2
                 | (Inr (newEmailIds, pageDeletedIds), w2) \<Rightarrow>
                     let carried = (case deletedEmailIds payload of
                                      None \<Rightarrow> [] | Some ds \<Rightarrow> ds);
                         allChangedEmailIds = newEmailIds @ carried @ pageDeletedIds;
                         w3 = (if allChangedEmailIds \<noteq> []
                               then log_actions [Notify u allChangedEmailIds] w2 else w2);
                         w4 = (if newEmailIds \<noteq> []
                               then log_actions [Emit_embedding u newEmailIds 1] w3 else w3)
                     in if truthy (nextPageToken historyRes)
                        then log_actions
                               [Sleep 1000,
                                Emit_sync \<lparr>ev_userId = u,
                                           pageToken = nextPageToken historyRes,
                                           pageCount = 1,
                                           deletedEmailIds = Some (carried @ pageDeletedIds)\<rparr>]
                               w4
                        else (case historyId historyRes of
                                None \<Rightarrow> w4
                              | Some h \<Rightarrow>
                                  if h \<noteq> [] then updateLastHistoryId u h w4 else w4)))
      else if \<not> truthy (pageToken payload) \<or> pageCount payload > MAX_PAGES
      then w
      else
        (let w1 = log_actions [Call_auth u] w
         in case getAuthenticatedGmailClient R u of
              Inl e \<Rightarrow> w1
            | Inr gmail \<Rightarrow>
                let w2 = log_actions [Call_list (pageToken payload)] w1
                in (case messages_list gmail (pageToken payload) of
                     Inl e \<Rightarrow> w2
                   | Inr listRes \<Rightarrow>
                       let messages = (case lr_messages listRes of
                                         None \<Rightarrow> [] | Some ms \<Rightarrow> ms);
                           nextToken = lr_nextPageToken listRes;
                           (emailIds, w3) = processAndSaveBatch u messages gmail w2;
                           w4 = (if emailIds \<noteq> []
                                 then log_actions [Notify u emailIds] w3 else w3);
                           w5 = (if emailIds \<noteq> []
                                 then log_actions [Emit_embedding u emailIds 1] w4 else w4);
                           w6 = log_actions [Sleep 1000] w5
                       in if truthy nextToken
                          then log_actions
                                 [Emit_sync \<lparr>ev_userId = u, pageToken = nextToken,
                                             pageCount = pageCount payload + 1,
                                             deletedEmailIds = None\<rparr>] w6
                          else w6)))"

section \<open>Embedding generation\<close>

text \<open>
  \<^verbatim>\<open>String.prototype.trim\<close> strips the white space and line terminators of
  ECMAScript from both ends: U+0009 to U+000D, U+0020, U+00A0, U+1680, U+2000 to U+200A,
  U+2028, U+2029, U+202F, U+205F, U+3000 and U+FEFF. A string is a list of bytes holding
  UTF-8, so each of them is the byte sequence that encodes it.
\<close>

definition WhiteSpace :: "string list" where
  "WhiteSpace =
     [[CHR 0x09], [CHR 0x0A], [CHR 0x0B], [CHR 0x0C], [CHR 0x0D], [CHR 0x20],
      [CHR 0xC2, CHR 0xA0], [CHR 0xE1, CHR 0x9A, CHR 0x80], [CHR 0xE2, CHR 0x80, CHR 0x80],
      [CHR 0xE2, CHR 0x80, CHR 0x81], [CHR 0xE2, CHR 0x80, CHR 0x82],
      [CHR 0xE2, CHR 0x80, CHR 0x83], [CHR 0xE2, CHR 0x80, CHR 0x84],
      [CHR 0xE2, CHR 0x80, CHR 0x85], [CHR 0xE2, CHR 0x80, CHR 0x86],
      [CHR 0xE2, CHR 0x80, CHR 0x87], [CHR 0xE2, CHR 0x80, CHR 0x88],
      [CHR 0xE2, CHR 0x80, CHR 0x89], [CHR 0xE2, CHR 0x80, CHR 0x8A],
      [CHR 0xE2, CHR 0x80, CHR 0xA8], [CHR 0xE2, CHR 0x80, CHR 0xA9],
      [CHR 0xE2, CHR 0x80, CHR 0xAF], [CHR 0xE2, CHR 0x81, CHR 0x9F],
      [CHR 0xE3, CHR 0x80, CHR 0x80], [CHR 0xEF, CHR 0xBB, CHR 0xBF]]"

text \<open>The length of the white-space character that a string starts with, 0 when there is none.\<close>

definition white_prefix :: "string list \<Rightarrow> string \<Rightarrow> nat" where
  "white_prefix toks s =
     (case find (\<lambda>t. take (length t) s = t) toks of None \<Rightarrow> 0 | Some t \<Rightarrow> length t)"

fun strip :: "string list \<Rightarrow> string \<Rightarrow> string" where
  "strip toks [] = []"
| "strip toks (c # cs) =
     (if white_prefix toks (c # cs) = 0 then c # cs
      else strip toks (drop (white_prefix toks (c # cs) - 1) cs))"

text \<open>The trailing white space is the leading white space of the reversed string.\<close>

definition trim :: "string \<Rightarrow> string" where
  "trim s = rev (strip (map rev WhiteSpace) (rev (strip WhiteSpace s)))"

definition prepareTextForEmbedding :: "Email \<Rightarrow> string" where
  "prepareTextForEmbedding email =
     trim (CHR 0x0A # ''        Subject: '' @ subject email @
           CHR 0x0A # ''        From: '' @ sender email @
           CHR 0x0A # ''        Content: '' @
             (if truthy (summary email) then or_empty (summary email) else snippet email) @
           CHR 0x0A # ''    '')"

definition BATCH_SIZE :: nat where
  "BATCH_SIZE = 10"

text \<open>The body of the \<^verbatim>\<open>emailsToProcess.map(async (email) => ...)\<close> callback.\<close>

definition embedEmail :: "remote \<Rightarrow> Email \<Rightarrow> Email option" where
  "embedEmail R email =
     (case generateEmbedding R (prepareTextForEmbedding email) of
        Inl e \<Rightarrow> None
      | Inr vector \<Rightarrow>
          Some (email\<lparr>embedding := (if length vector = 1536 then Some vector else None)\<rparr>))"

text \<open>The query of \<^verbatim>\<open>generateEmbeddingsForEmails\<close>, with its \<^verbatim>\<open>take(BATCH_SIZE)\<close>.\<close>

definition emailsToProcess :: "int \<Rightarrow> string list \<Rightarrow> world \<Rightarrow> Email list" where
  "emailsToProcess u emailIds w =
     take BATCH_SIZE
       (filter (\<lambda>e. embedding e = None \<and> userId e = u \<and> email_id e \<in> set emailIds)
          (emails w))"

definition generateEmbeddingsForEmails ::
  "remote \<Rightarrow> int \<Rightarrow> string list \<Rightarrow> world \<Rightarrow> string list \<times> world" where
  "generateEmbeddingsForEmails R u emailIds w =
     (let toProcess = emailsToProcess u emailIds w
      in if toProcess = [] then ([], w)
         else
           let w1 = log_actions
                      (map (\<lambda>e. Call_embedding (prepareTextForEmbedding e)) toProcess) w;
               updatedEmails = map (embedEmail R) toProcess;
               validEmails =
                 filter (\<lambda>e. embedding e \<noteq> None) (List.map_filter (\<lambda>e. e) updatedEmails);
               w2 = (if validEmails \<noteq> []
                     then log_actions [Db_save validEmails]
                            (w1\<lparr>emails := save validEmails (emails w1)\<rparr>)
                     else w1);
               processedIds = map email_id toProcess;
               remainingIds = filter (\<lambda>i. i \<notin> set processedIds) emailIds
           in (remainingIds, w2))"

section \<open>Observations and example data\<close>

text \<open>The actions that are follow-up sync requests.\<close>

fun is_sync_request :: "action \<Rightarrow> bool" where
  "is_sync_request (Emit_sync e) = True"
| "is_sync_request a = False"

text \<open>What a call added to the trace of the world it started from.\<close>

definition new_actions :: "world \<Rightarrow> world \<Rightarrow> action list" where
  "new_actions w w' = drop (length (trace w)) (trace w')"

text \<open>The ids of all stored rows, whoever owns them.\<close>

definition stored_ids :: "world \<Rightarrow> string set" where
  "stored_ids w = email_id ` set (emails w)"

text \<open>Whether \<^verbatim>\<open>messages.get\<close> resolves for an id.\<close>

definition get_ok :: "gmail_client \<Rightarrow> string \<Rightarrow> bool" where
  "get_ok g i = (case messages_get g i of Inl e \<Rightarrow> False | Inr d \<Rightarrow> True)"

text \<open>The rows handed to \<^verbatim>\<open>save\<close> and the ids handed to \<^verbatim>\<open>messages.get\<close> in a trace.\<close>

definition saved_rows :: "action list \<Rightarrow> Email list" where
  "saved_rows as = concat (map (\<lambda>a. case a of Db_save b \<Rightarrow> b | _ \<Rightarrow> []) as)"

definition fetched_ids :: "action list \<Rightarrow> string list" where
  "fetched_ids as = concat (map (\<lambda>a. case a of Call_get i \<Rightarrow> [i] | _ \<Rightarrow> []) as)"

text \<open>The texts handed to \<^verbatim>\<open>generateEmbedding\<close> in a trace.\<close>

definition embedding_calls :: "action list \<Rightarrow> string list" where
  "embedding_calls as = concat (map (\<lambda>a. case a of Call_embedding t \<Rightarrow> [t] | _ \<Rightarrow> []) as)"

text \<open>The pair that the store keeps unique.\<close>

definition row_key :: "Email \<Rightarrow> int \<times> string" where
  "row_key e = (userId e, email_id e)"

text \<open>
  A remote mailbox for the examples: \<^verbatim>\<open>messages.get\<close> is rejected for the id
  \<^verbatim>\<open>bad\<close> only, the listing has one message and a next page, the profile reports
  history id 500, and the history feed is the page of the spec's scenario "mixed page
  with continuation": one message added, one deleted, a continuation token, and
  history id 200.
\<close>

definition ex_detail :: detail where
  "ex_detail =
     \<lparr>d_threadId = Some ''t1'', d_snippet = Some ''hello'', d_internalDate = Some ''1700'',
      d_headers = Some [\<lparr>h_name = Some ''Subject'', h_value = Some ''Hi''\<rparr>,
                        \<lparr>h_name = Some ''From'', h_value = Some ''a@b.c''\<rparr>]\<rparr>"

definition ex_client :: gmail_client where
  "ex_client =
     \<lparr>messages_get = (\<lambda>i. if i = ''bad'' then Inl NotFound else Inr ex_detail),
      messages_list = (\<lambda>t. Inr \<lparr>lr_messages = Some [\<lparr>msg_id = ''m1'', msg_threadId = ''t1''\<rparr>],
                                  lr_nextPageToken = Some ''tok2''\<rparr>)\<rparr>"

definition ex_page :: history_res where
  "ex_page =
     \<lparr>history = Some [\<lparr>messagesAdded = Some [Some ''m3''],
                        messagesDeleted = Some [Some ''m4'']\<rparr>],
      nextPageToken = Some ''tok'', historyId = Some ''200''\<rparr>"

definition ex_remote :: remote where
  "ex_remote =
     \<lparr>getAuthenticatedGmailClient = (\<lambda>u. Inr ex_client),
      getProfile = (\<lambda>u. Inr \<lparr>p_historyId = Some ''500''\<rparr>),
      getMailboxHistory = (\<lambda>u s m t. Inr ex_page),
      generateEmbedding = (\<lambda>t. Inr (replicate 1536 0))\<rparr>"

text \<open>The same remote with a history listing that is rejected as expired.\<close>

definition expired_remote :: remote where
  "expired_remote = ex_remote\<lparr>getMailboxHistory := (\<lambda>u s m t. Inl HistoryExpired)\<rparr>"

definition ex_row :: "string \<Rightarrow> int \<Rightarrow> Email" where
  "ex_row i u =
     \<lparr>email_id = i, threadId = ''t'', snippet = ''s'', internalDate = ''1'',
      subject = ''x'', sender = ''y'', userId = u, summary = None, embedding = None\<rparr>"

text \<open>A world with the given rows, the given cursor for user 1 and no cursor for anyone else.\<close>

definition ex_world :: "Email list \<Rightarrow> string option \<Rightarrow> world" where
  "ex_world rows c =
     \<lparr>emails = rows, lastHistoryId = (\<lambda>u. if u = 1 then c else None), trace = []\<rparr>"

definition ex_event :: "string option \<Rightarrow> int \<Rightarrow> EmailSyncEvent" where
  "ex_event t n = \<lparr>ev_userId = 1, pageToken = t, pageCount = n, deletedEmailIds = None\<rparr>"

definition ex_msg :: "string \<Rightarrow> message" where
  "ex_msg i = \<lparr>msg_id = i, msg_threadId = ''t1''\<rparr>"

text \<open>
  A row of user 1 with its own snippet, and a remote whose embedding of that row's text
  has length 1 while every other embedding has length 1536.
\<close>

definition short_row :: Email where
  "short_row = (ex_row ''b'' 1)\<lparr>snippet := ''short''\<rparr>"

definition short_remote :: remote where
  "short_remote =
     ex_remote\<lparr>generateEmbedding :=
       (\<lambda>t. if t = prepareTextForEmbedding short_row then Inr [0] else Inr (replicate 1536 0))\<rparr>"

section \<open>Properties\<close>

lemmas handler_defs = handleSyncOldEmails_def syncEmailsWithHistory_def processHistoryRecords_def
  processAndSaveBatch_def truthy_def getLastHistoryId_def updateLastHistoryId_def log_actions_def
  Let_def valid_ids_def List.map_filter_def fetchHistoryEmail_def fetchMessage_def find_ids_def
  save_def delete_rows_def or_empty_def getHeader_def MAX_PAGES_def

lemmas ex_defs = ex_detail_def ex_client_def ex_page_def ex_remote_def expired_remote_def
  ex_row_def ex_world_def ex_event_def ex_msg_def

subsection \<open>Store lemmas\<close>

lemma upsert_ids: "email_id ` set (upsert e rs) = insert (email_id e) (email_id ` set rs)"
  by (induction rs) auto

lemma upsert_subset: "set (upsert e rs) \<subseteq> insert e (set rs)"
  by (induction rs) auto

lemma upsert_append_key:
  "\<forall>r\<in>set rs. \<not> (email_id r = email_id e \<and> userId r = userId e) \<Longrightarrow>
   upsert e (rs @ new) = rs @ upsert e new"
  by (induction rs) auto

lemma upsert_map_ids:
  "\<forall>r\<in>set new. userId r = userId e \<Longrightarrow>
   map email_id (upsert e new) =
     (if email_id e \<in> email_id ` set new then map email_id new else map email_id new @ [email_id e])"
  by (induction new) auto

lemma save_Nil: "save [] rows = rows"
  by (simp add: save_def)

lemma save_snoc: "save (b @ [e]) rows = upsert e (save b rows)"
  by (simp add: save_def)

lemma save_ids: "email_id ` set (save b rows) = email_id ` set rows \<union> email_id ` set b"
  by (induction b rule: rev_induct) (auto simp: save_Nil save_snoc upsert_ids)

lemma save_subset: "set (save b rows) \<subseteq> set rows \<union> set b"
proof (induction b rule: rev_induct)
  case Nil
  then show ?case by (simp add: save_Nil)
next
  case (snoc e b)
  have "set (upsert e (save b rows)) \<subseteq> insert e (set (save b rows))"
    by (rule upsert_subset)
  with snoc show ?case by (auto simp: save_snoc)
qed

lemma save_fresh_key:
  assumes "\<forall>e\<in>set b. userId e = u"
    and "\<forall>e\<in>set b. \<forall>r\<in>set rows. userId r = u \<longrightarrow> email_id r \<noteq> email_id e"
  shows "\<exists>new. save b rows = rows @ new \<and> distinct (map email_id new) \<and>
           set (map email_id new) = set (map email_id b) \<and> (\<forall>e\<in>set new. userId e = u)"
  using assms
proof (induction b rule: rev_induct)
  case Nil
  then show ?case by (simp add: save_Nil)
next
  case (snoc e b)
  from snoc.prems have pb: "\<forall>e\<in>set b. userId e = u"
    "\<forall>e\<in>set b. \<forall>r\<in>set rows. userId r = u \<longrightarrow> email_id r \<noteq> email_id e"
    by auto
  from snoc.IH [OF pb] obtain new where n: "save b rows = rows @ new"
    "distinct (map email_id new)"
    "set (map email_id new) = set (map email_id b)" "\<forall>e\<in>set new. userId e = u"
    by blast
  from snoc.prems(1) have e1: "userId e = u" by simp
  from snoc.prems(2) have "\<forall>r\<in>set rows. userId r = u \<longrightarrow> email_id r \<noteq> email_id e" by simp
  with e1 have e2: "\<forall>r\<in>set rows. \<not> (email_id r = email_id e \<and> userId r = userId e)" by metis
  have s: "save (b @ [e]) rows = rows @ upsert e new"
    by (simp add: save_snoc n(1) upsert_append_key e2)
  have m: "map email_id (upsert e new) =
     (if email_id e \<in> email_id ` set new then map email_id new else map email_id new @ [email_id e])"
    by (rule upsert_map_ids) (simp add: n(4) e1)
  have d: "distinct (map email_id (upsert e new))"
    using n(2) by (auto simp: m)
  have i: "set (map email_id (upsert e new)) = set (map email_id (b @ [e]))"
    using n(3) by (auto simp: m)
  have us: "\<forall>x\<in>set (upsert e new). userId x = u"
    using upsert_subset [of e new] n(4) e1 by auto
  from s d i us show ?case by blast
qed

lemma save_fresh:
  assumes "\<forall>e\<in>set b. userId e = u"
    and "email_id ` set b \<inter> email_id ` set rows = {}"
  shows "\<exists>new. save b rows = rows @ new \<and> distinct (map email_id new) \<and>
           set (map email_id new) = set (map email_id b) \<and> (\<forall>e\<in>set new. userId e = u)"
proof -
  have "\<forall>e\<in>set b. \<forall>r\<in>set rows. userId r = u \<longrightarrow> email_id r \<noteq> email_id e"
  proof (intro ballI impI)
    fix e r assume eb: "e \<in> set b" and rr: "r \<in> set rows"
    from eb have 1: "email_id e \<in> email_id ` set b" by (rule imageI)
    from rr have 2: "email_id r \<in> email_id ` set rows" by (rule imageI)
    from 1 2 assms(2) show "email_id r \<noteq> email_id e"
      by (metis disjoint_iff)
  qed
  with assms(1) show ?thesis
    by (rule save_fresh_key)
qed

lemma delete_rows_Nil: "delete_rows u [] rows = rows"
  by (simp add: delete_rows_def)

lemma delete_rows_mem:
  "e \<in> set (delete_rows u ids rows) \<longleftrightarrow>
     e \<in> set rows \<and> \<not> (email_id e \<in> set ids \<and> userId e = u)"
  by (simp add: delete_rows_def)

lemma find_user_ids_mem:
  "i \<in> set (find_user_ids u rows) \<longleftrightarrow> (\<exists>e\<in>set rows. userId e = u \<and> email_id e = i)"
  by (auto simp: find_user_ids_def)

subsection \<open>The Batch Detail Fetcher\<close>

lemma map_filter_id_map: "List.map_filter (\<lambda>e. e) (map f xs) = List.map_filter f xs"
  by (induction xs) (simp_all add: List.map_filter_def)

lemma fetchMessage_ids:
  "map email_id (List.map_filter (fetchMessage u g) xs) =
     map msg_id (filter (\<lambda>m. get_ok g (msg_id m)) xs)"
  by (induction xs)
     (auto simp: List.map_filter_def fetchMessage_def get_ok_def Let_def split: sum.splits)

lemma fetchMessage_user:
  "e \<in> set (List.map_filter (fetchMessage u g) xs) \<Longrightarrow> userId e = u"
  by (auto simp: List.map_filter_def fetchMessage_def Let_def split: sum.splits)

lemma to_fetch_eq:
  "filter (\<lambda>m. msg_id m \<notin> set (find_ids (map msg_id ms) rows)) ms =
   filter (\<lambda>m. msg_id m \<notin> email_id ` set rows) ms"
  by (rule filter_cong) (force simp: find_ids_def)+

lemma log_actions_Nil: "log_actions [] w = w"
  by (simp add: log_actions_def)

lemma processAndSaveBatch_eq:
  "processAndSaveBatch u ms g w =
     (let toFetch = filter (\<lambda>m. msg_id m \<notin> stored_ids w) ms;
          valid = List.map_filter (fetchMessage u g) toFetch;
          w1 = log_actions (map (\<lambda>m. Call_get (msg_id m)) toFetch) w
      in if valid = [] then ([], w1)
         else (map email_id valid,
               log_actions [Db_save valid] (w1\<lparr>emails := save valid (emails w)\<rparr>)))"
  by (cases "ms = []")
     (auto simp: processAndSaveBatch_def Let_def to_fetch_eq stored_ids_def map_filter_id_map
        log_actions_Nil log_actions_def)

lemma processAndSaveBatch_fst:
  "fst (processAndSaveBatch u ms g w) =
     map msg_id (filter (\<lambda>m. msg_id m \<notin> stored_ids w \<and> get_ok g (msg_id m)) ms)"
proof -
  have "fst (processAndSaveBatch u ms g w) =
      map email_id (List.map_filter (fetchMessage u g) (filter (\<lambda>m. msg_id m \<notin> stored_ids w) ms))"
    by (simp add: processAndSaveBatch_eq Let_def)
  then show ?thesis
    by (simp add: fetchMessage_ids conj_commute)
qed

lemma processAndSaveBatch_emails:
  "emails (snd (processAndSaveBatch u ms g w)) =
     save (List.map_filter (fetchMessage u g) (filter (\<lambda>m. msg_id m \<notin> stored_ids w) ms)) (emails w)"
  by (simp add: processAndSaveBatch_eq Let_def log_actions_def save_Nil)

lemma processAndSaveBatch_trace:
  "trace (snd (processAndSaveBatch u ms g w)) =
     trace w @ map (\<lambda>m. Call_get (msg_id m)) (filter (\<lambda>m. msg_id m \<notin> stored_ids w) ms) @
       (let valid = List.map_filter (fetchMessage u g) (filter (\<lambda>m. msg_id m \<notin> stored_ids w) ms)
        in if valid = [] then [] else [Db_save valid])"
  by (simp add: processAndSaveBatch_eq Let_def log_actions_def)

lemma processAndSaveBatch_stored:
  "stored_ids (snd (processAndSaveBatch u ms g w)) =
     stored_ids w \<union> set (fst (processAndSaveBatch u ms g w))"
proof -
  have "set (fst (processAndSaveBatch u ms g w)) =
      email_id ` set (List.map_filter (fetchMessage u g) (filter (\<lambda>m. msg_id m \<notin> stored_ids w) ms))"
    by (simp add: processAndSaveBatch_eq Let_def)
  then show ?thesis
    by (simp add: stored_ids_def processAndSaveBatch_emails save_ids)
qed

lemma fetched_ids_gets: "fetched_ids (map (\<lambda>m. Call_get (msg_id m)) xs) = map msg_id xs"
  by (induction xs) (simp_all add: fetched_ids_def)

lemma fetched_ids_append: "fetched_ids (xs @ ys) = fetched_ids xs @ fetched_ids ys"
  by (simp add: fetched_ids_def)

lemma saved_rows_gets: "saved_rows (map (\<lambda>m. Call_get (msg_id m)) xs) = []"
  by (induction xs) (simp_all add: saved_rows_def)

lemma saved_rows_append: "saved_rows (xs @ ys) = saved_rows xs @ saved_rows ys"
  by (simp add: saved_rows_def)


lemma processAndSaveBatch_new_actions:
  "new_actions w (snd (processAndSaveBatch u ms g w)) =
     map (\<lambda>m. Call_get (msg_id m)) (filter (\<lambda>m. msg_id m \<notin> stored_ids w) ms) @
       (let valid = List.map_filter (fetchMessage u g) (filter (\<lambda>m. msg_id m \<notin> stored_ids w) ms)
        in if valid = [] then [] else [Db_save valid])"
  by (simp add: new_actions_def processAndSaveBatch_trace)

lemma processAndSaveBatch_fetched:
  "fetched_ids (new_actions w (snd (processAndSaveBatch u ms g w))) =
     map msg_id (filter (\<lambda>m. msg_id m \<notin> stored_ids w) ms)"
  by (simp add: processAndSaveBatch_new_actions fetched_ids_append fetched_ids_gets Let_def)
     (simp add: fetched_ids_def)

lemma processAndSaveBatch_saved:
  "saved_rows (new_actions w (snd (processAndSaveBatch u ms g w))) =
     List.map_filter (fetchMessage u g) (filter (\<lambda>m. msg_id m \<notin> stored_ids w) ms)"
  by (simp add: processAndSaveBatch_new_actions saved_rows_append saved_rows_gets Let_def)
     (simp add: saved_rows_def)

lemma processAndSaveBatch_saved_ids:
  "map email_id (saved_rows (new_actions w (snd (processAndSaveBatch u ms g w)))) =
     fst (processAndSaveBatch u ms g w)"
proof -
  have "fst (processAndSaveBatch u ms g w) =
      map email_id (List.map_filter (fetchMessage u g) (filter (\<lambda>m. msg_id m \<notin> stored_ids w) ms))"
    by (simp add: processAndSaveBatch_eq Let_def)
  then show ?thesis
    by (simp add: processAndSaveBatch_saved)
qed

lemma processAndSaveBatch_fresh: "set (fst (processAndSaveBatch u ms g w)) \<inter> stored_ids w = {}"
  by (auto simp: processAndSaveBatch_fst)

lemma processAndSaveBatch_appends:
  "\<exists>new. emails (snd (processAndSaveBatch u ms g w)) = emails w @ new \<and>
     distinct (map email_id new) \<and>
     set (map email_id new) = set (fst (processAndSaveBatch u ms g w)) \<and>
     (\<forall>e\<in>set new. userId e = u)"
proof -
  let ?valid = "List.map_filter (fetchMessage u g) (filter (\<lambda>m. msg_id m \<notin> stored_ids w) ms)"
  have r: "fst (processAndSaveBatch u ms g w) = map email_id ?valid"
    by (simp add: processAndSaveBatch_eq Let_def)
  have a: "\<forall>e\<in>set ?valid. userId e = u"
    by (blast dest: fetchMessage_user)
  have "set (map email_id ?valid) \<inter> stored_ids w = {}"
    using processAndSaveBatch_fresh [of u ms g w] by (simp only: r)
  then have b: "email_id ` set ?valid \<inter> email_id ` set (emails w) = {}"
    by (simp add: stored_ids_def)
  from save_fresh [OF a b] show ?thesis
    by (simp only: processAndSaveBatch_emails r)
qed

subsection \<open>Per-message failures\<close>

text \<open>
  Claim C9. In \<^verbatim>\<open>processAndSaveBatch\<close> a rejected \<^verbatim>\<open>messages.get\<close> is absorbed. The
  call returns, in order, the ids of the candidates that were not stored before and whose
  fetch succeeded; a fetch is attempted for every candidate that was not stored, the
  failing ones included, so no sibling is skipped; the rows handed to \<^verbatim>\<open>save\<close> carry
  exactly the returned ids; afterwards the store holds the old ids and the returned
  ones, each returned id in a row of this user; the returned ids are all new; and an id
  whose fetch failed is not in the store afterwards.
\<close>

theorem batch_absorbs_fetch_failures:
  "fst (processAndSaveBatch u ms g w) =
     map msg_id (filter (\<lambda>m. msg_id m \<notin> stored_ids w \<and> get_ok g (msg_id m)) ms) \<and>
   fetched_ids (new_actions w (snd (processAndSaveBatch u ms g w))) =
     map msg_id (filter (\<lambda>m. msg_id m \<notin> stored_ids w) ms) \<and>
   map email_id (saved_rows (new_actions w (snd (processAndSaveBatch u ms g w)))) =
     fst (processAndSaveBatch u ms g w) \<and>
   stored_ids (snd (processAndSaveBatch u ms g w)) =
     stored_ids w \<union> set (fst (processAndSaveBatch u ms g w)) \<and>
   set (fst (processAndSaveBatch u ms g w)) \<inter> stored_ids w = {} \<and>
   (\<forall>i\<in>set (fst (processAndSaveBatch u ms g w)).
      \<exists>e\<in>set (emails (snd (processAndSaveBatch u ms g w))). email_id e = i \<and> userId e = u) \<and>
   (\<forall>m\<in>set ms. msg_id m \<notin> stored_ids w \<and> \<not> get_ok g (msg_id m) \<longrightarrow>
      msg_id m \<notin> stored_ids (snd (processAndSaveBatch u ms g w)))"
proof -
  let ?r = "fst (processAndSaveBatch u ms g w)"
  let ?w' = "snd (processAndSaveBatch u ms g w)"
  obtain new where n: "emails ?w' = emails w @ new"
    "set (map email_id new) = set ?r" "\<forall>e\<in>set new. userId e = u"
    using processAndSaveBatch_appends [of u ms g w] by blast
  have p: "\<forall>i\<in>set ?r. \<exists>e\<in>set (emails ?w'). email_id e = i \<and> userId e = u"
  proof
    fix i assume "i \<in> set ?r"
    then have "i \<in> email_id ` set new" using n(2) by simp
    then obtain e where "e \<in> set new" "email_id e = i" by auto
    then show "\<exists>e\<in>set (emails ?w'). email_id e = i \<and> userId e = u"
      using n(1) n(3) by auto
  qed
  have f: "\<forall>m\<in>set ms. msg_id m \<notin> stored_ids w \<and> \<not> get_ok g (msg_id m) \<longrightarrow>
      msg_id m \<notin> stored_ids ?w'"
    by (auto simp: processAndSaveBatch_stored processAndSaveBatch_fst)
  show ?thesis
    using p f processAndSaveBatch_fst [of u ms g w] processAndSaveBatch_fetched [of w u ms g]
      processAndSaveBatch_saved_ids [of w u ms g] processAndSaveBatch_stored [of u ms g w]
      processAndSaveBatch_fresh [of u ms g w]
    by blast
qed

theorem batch_absorbs_fetch_failures_witness:
  "fst (processAndSaveBatch 1 [ex_msg ''m1'', ex_msg ''bad'', ex_msg ''m2''] ex_client
          (ex_world [ex_row ''m1'' 2] None)) = [''m2''] \<and>
   fetched_ids (new_actions (ex_world [ex_row ''m1'' 2] None)
      (snd (processAndSaveBatch 1 [ex_msg ''m1'', ex_msg ''bad'', ex_msg ''m2''] ex_client
          (ex_world [ex_row ''m1'' 2] None)))) = [''bad'', ''m2''] \<and>
   ''bad'' \<notin> stored_ids (snd (processAndSaveBatch 1 [ex_msg ''m1'', ex_msg ''bad'', ex_msg ''m2'']
          ex_client (ex_world [ex_row ''m1'' 2] None))) \<and>
   (\<exists>e\<in>set (emails (snd (processAndSaveBatch 1 [ex_msg ''m1'', ex_msg ''bad'', ex_msg ''m2'']
          ex_client (ex_world [ex_row ''m1'' 2] None)))). email_id e = ''m2'' \<and> userId e = 1)"
  using batch_absorbs_fetch_failures
    [of 1 "[ex_msg ''m1'', ex_msg ''bad'', ex_msg ''m2'']" ex_client "ex_world [ex_row ''m1'' 2] None"]
  by (simp add: stored_ids_def get_ok_def ex_defs)



subsection \<open>Repeated delivery\<close>

text \<open>
  Claim C5. \<^verbatim>\<open>processAndSaveBatch\<close> is idempotent under repeated delivery. For two
  calls in a row for the same user, with any two candidate lists and any two clients:
  the second call returns, saves and fetches no id that the store holds after the first;
  it only appends rows to the store, with pairwise different ids, namely the ids it
  returns, so no stored id gets a second row; when all its candidates are already stored
  it returns nothing and leaves the world as it is; and when it repeats the first call
  (same candidates, same client) it returns nothing, saves nothing and leaves the stored
  rows as they are.
\<close>

theorem batch_skips_no_present_id:
  assumes "processAndSaveBatch u ms1 g1 w = (r1, w1)"
    and "processAndSaveBatch u ms2 g2 w1 = (r2, w2)"
  shows "set r2 \<inter> stored_ids w1 = {} \<and>
         email_id ` set (saved_rows (new_actions w1 w2)) \<inter> stored_ids w1 = {} \<and>
         set (fetched_ids (new_actions w1 w2)) \<inter> stored_ids w1 = {} \<and>
         (\<exists>new. emails w2 = emails w1 @ new \<and> distinct (map email_id new) \<and>
                set (map email_id new) = set r2) \<and>
         (set (map msg_id ms2) \<subseteq> stored_ids w1 \<longrightarrow> r2 = [] \<and> w2 = w1) \<and>
         (ms2 = ms1 \<and> g2 = g1 \<longrightarrow>
            r2 = [] \<and> emails w2 = emails w1 \<and> saved_rows (new_actions w1 w2) = [])"
proof -
  have r2: "r2 = fst (processAndSaveBatch u ms2 g2 w1)"
    and w2: "w2 = snd (processAndSaveBatch u ms2 g2 w1)"
    and r1: "r1 = fst (processAndSaveBatch u ms1 g1 w)"
    and w1: "w1 = snd (processAndSaveBatch u ms1 g1 w)"
    using assms by simp_all
  have a: "set r2 \<inter> stored_ids w1 = {}"
    unfolding r2 by (rule processAndSaveBatch_fresh)
  have "set (map email_id (saved_rows (new_actions w1 w2))) = set r2"
    unfolding r2 w2 by (simp only: processAndSaveBatch_saved_ids)
  with a have b: "email_id ` set (saved_rows (new_actions w1 w2)) \<inter> stored_ids w1 = {}"
    by simp
  have c: "set (fetched_ids (new_actions w1 w2)) \<inter> stored_ids w1 = {}"
    unfolding w2 by (auto simp: processAndSaveBatch_fetched)
  have d: "\<exists>new. emails w2 = emails w1 @ new \<and> distinct (map email_id new) \<and>
                set (map email_id new) = set r2"
    unfolding r2 w2 using processAndSaveBatch_appends [of u ms2 g2 w1] by blast
  have e: "set (map msg_id ms2) \<subseteq> stored_ids w1 \<longrightarrow> r2 = [] \<and> w2 = w1"
  proof
    assume "set (map msg_id ms2) \<subseteq> stored_ids w1"
    then have "filter (\<lambda>m. msg_id m \<notin> stored_ids w1) ms2 = []"
      by (auto simp: filter_empty_conv)
    then have "processAndSaveBatch u ms2 g2 w1 = ([], w1)"
      by (simp add: processAndSaveBatch_eq log_actions_Nil)
    with assms(2) show "r2 = [] \<and> w2 = w1" by simp
  qed
  have f: "ms2 = ms1 \<and> g2 = g1 \<longrightarrow>
            r2 = [] \<and> emails w2 = emails w1 \<and> saved_rows (new_actions w1 w2) = []"
  proof
    assume same: "ms2 = ms1 \<and> g2 = g1"
    have s1: "stored_ids w1 = stored_ids w \<union> set r1"
      unfolding r1 w1 by (rule processAndSaveBatch_stored)
    have "filter (\<lambda>m. msg_id m \<notin> stored_ids w1 \<and> get_ok g1 (msg_id m)) ms1 = []"
      unfolding s1 r1 by (auto simp: filter_empty_conv processAndSaveBatch_fst)
    then have z: "fst (processAndSaveBatch u ms1 g1 w1) = []"
      by (simp add: processAndSaveBatch_fst)
    then have v: "List.map_filter (fetchMessage u g1)
        (filter (\<lambda>m. msg_id m \<notin> stored_ids w1) ms1) = []"
      by (simp add: processAndSaveBatch_eq Let_def split: if_splits)
    have "emails (snd (processAndSaveBatch u ms1 g1 w1)) = emails w1"
      by (simp add: processAndSaveBatch_emails v save_Nil)
    moreover have "saved_rows (new_actions w1 (snd (processAndSaveBatch u ms1 g1 w1))) = []"
      by (simp add: processAndSaveBatch_saved v)
    ultimately show "r2 = [] \<and> emails w2 = emails w1 \<and> saved_rows (new_actions w1 w2) = []"
      using z same by (simp add: r2 w2)
  qed
  from a b c d e f show ?thesis by blast
qed

theorem batch_skips_no_present_id_witness:
  "set (fst (processAndSaveBatch 1 [ex_msg ''m1'', ex_msg ''m2''] ex_client
          (snd (processAndSaveBatch 1 [ex_msg ''m1'', ex_msg ''bad''] ex_client (ex_world [] None)))))
     \<inter> stored_ids (snd (processAndSaveBatch 1 [ex_msg ''m1'', ex_msg ''bad''] ex_client
          (ex_world [] None))) = {} \<and>
   fst (processAndSaveBatch 1 [ex_msg ''m1''] ex_client
          (snd (processAndSaveBatch 1 [ex_msg ''m1''] ex_client (ex_world [] None)))) = [] \<and>
   snd (processAndSaveBatch 1 [ex_msg ''m1''] ex_client
          (snd (processAndSaveBatch 1 [ex_msg ''m1''] ex_client (ex_world [] None)))) =
     snd (processAndSaveBatch 1 [ex_msg ''m1''] ex_client (ex_world [] None)) \<and>
   set (map msg_id [ex_msg ''m1'']) \<subseteq>
     stored_ids (snd (processAndSaveBatch 1 [ex_msg ''m1''] ex_client (ex_world [] None)))"
proof -
  let ?W = "ex_world [] None"
  let ?A = "[ex_msg ''m1'', ex_msg ''bad'']"
  let ?B = "[ex_msg ''m1'', ex_msg ''m2'']"
  let ?C = "[ex_msg ''m1'']"
  have s: "set (map msg_id ?C) \<subseteq> stored_ids (snd (processAndSaveBatch 1 ?C ex_client ?W))"
    by (simp only: processAndSaveBatch_stored processAndSaveBatch_fst)
       (simp add: stored_ids_def get_ok_def ex_defs)
  have a1: "processAndSaveBatch 1 ?A ex_client ?W =
      (fst (processAndSaveBatch 1 ?A ex_client ?W), snd (processAndSaveBatch 1 ?A ex_client ?W))"
    by simp
  have a2: "processAndSaveBatch 1 ?B ex_client (snd (processAndSaveBatch 1 ?A ex_client ?W)) =
      (fst (processAndSaveBatch 1 ?B ex_client (snd (processAndSaveBatch 1 ?A ex_client ?W))),
       snd (processAndSaveBatch 1 ?B ex_client (snd (processAndSaveBatch 1 ?A ex_client ?W))))"
    by simp
  have c1: "processAndSaveBatch 1 ?C ex_client ?W =
      (fst (processAndSaveBatch 1 ?C ex_client ?W), snd (processAndSaveBatch 1 ?C ex_client ?W))"
    by simp
  have c2: "processAndSaveBatch 1 ?C ex_client (snd (processAndSaveBatch 1 ?C ex_client ?W)) =
      (fst (processAndSaveBatch 1 ?C ex_client (snd (processAndSaveBatch 1 ?C ex_client ?W))),
       snd (processAndSaveBatch 1 ?C ex_client (snd (processAndSaveBatch 1 ?C ex_client ?W))))"
    by simp
  show ?thesis
    using s batch_skips_no_present_id [OF a1 a2] batch_skips_no_present_id [OF c1 c2]
    by simp
qed

subsection \<open>Diff-mode reconciliation\<close>

lemma Array_from_Set_set: "set (Array_from_Set xs) = set xs"
  by (induction xs) auto

lemma Array_from_Set_distinct: "distinct (Array_from_Set xs)"
  by (induction xs) (auto simp: Array_from_Set_set)

lemma syncEmailsWithDeletion_deleted:
  "snd (fst (syncEmailsWithDeletion u ms g w)) =
     filter (\<lambda>i. i \<notin> set (map msg_id ms)) (Array_from_Set (find_user_ids u (emails w)))"
  by (simp add: syncEmailsWithDeletion_def Let_def split_beta)

lemma syncEmailsWithDeletion_emails:
  "emails (snd (syncEmailsWithDeletion u ms g w)) =
     delete_rows u (snd (fst (syncEmailsWithDeletion u ms g w)))
       (save (List.map_filter (fetchMessage u g)
                (filter (\<lambda>m. msg_id m \<notin> set (find_user_ids u (emails w))) ms))
          (emails w))"
  by (simp add: syncEmailsWithDeletion_def Let_def split_beta log_actions_def map_filter_id_map
        save_Nil delete_rows_Nil)

lemma syncEmailsWithDeletion_new:
  "fst (fst (syncEmailsWithDeletion u ms g w)) =
     map msg_id (filter (\<lambda>m. msg_id m \<notin> set (find_user_ids u (emails w)) \<and> get_ok g (msg_id m)) ms)"
proof -
  have "fst (fst (syncEmailsWithDeletion u ms g w)) =
      map email_id (List.map_filter (fetchMessage u g)
         (filter (\<lambda>m. msg_id m \<notin> set (find_user_ids u (emails w))) ms))"
    by (simp add: syncEmailsWithDeletion_def Let_def split_beta map_filter_id_map)
  then show ?thesis
    by (simp add: fetchMessage_ids conj_commute)
qed

text \<open>
  Claim C7. \<^verbatim>\<open>syncEmailsWithDeletion\<close> deletes exactly the local ids that are absent
  from the remote list: the returned deleted ids are, without repetition, this user's
  stored ids minus the listed ids; a row of this user stays in the store if and only if
  its id is listed, and it stays as it was; rows of other users stay; and afterwards every
  row of this user has a listed id. For local \<open>{A, B, C}\<close> and remote \<open>{A, C}\<close> exactly
  \<open>B\<close> is deleted.
\<close>

theorem diff_mode_deletes_local_minus_remote:
  "set (snd (fst (syncEmailsWithDeletion u ms g w))) =
     set (find_user_ids u (emails w)) - set (map msg_id ms) \<and>
   distinct (snd (fst (syncEmailsWithDeletion u ms g w))) \<and>
   (\<forall>e\<in>set (emails w). userId e = u \<longrightarrow>
      (e \<in> set (emails (snd (syncEmailsWithDeletion u ms g w))) \<longleftrightarrow>
       email_id e \<in> set (map msg_id ms))) \<and>
   (\<forall>e\<in>set (emails w). userId e \<noteq> u \<longrightarrow>
      e \<in> set (emails (snd (syncEmailsWithDeletion u ms g w)))) \<and>
   (\<forall>e\<in>set (emails (snd (syncEmailsWithDeletion u ms g w))). userId e = u \<longrightarrow>
      email_id e \<in> set (map msg_id ms))"
proof -
  let ?local = "find_user_ids u (emails w)"
  let ?deleted = "snd (fst (syncEmailsWithDeletion u ms g w))"
  let ?valid = "List.map_filter (fetchMessage u g) (filter (\<lambda>m. msg_id m \<notin> set ?local) ms)"
  have del: "set ?deleted = set ?local - set (map msg_id ms)"
    by (auto simp: syncEmailsWithDeletion_deleted Array_from_Set_set)
  have dis: "distinct ?deleted"
    by (simp add: syncEmailsWithDeletion_deleted Array_from_Set_distinct)
  have vu: "\<forall>e\<in>set ?valid. userId e = u"
    by (blast dest: fetchMessage_user)
  have "set (map email_id ?valid) \<subseteq> set (map msg_id (filter (\<lambda>m. msg_id m \<notin> set ?local) ms))"
    by (auto simp: fetchMessage_ids)
  then have vi: "\<forall>e\<in>set ?valid. email_id e \<in> set (map msg_id ms) \<and> email_id e \<notin> set ?local"
    by auto
  have "\<forall>e\<in>set ?valid. \<forall>r\<in>set (emails w). userId r = u \<longrightarrow> email_id r \<noteq> email_id e"
  proof (intro ballI impI)
    fix e r assume "e \<in> set ?valid" "r \<in> set (emails w)" "userId r = u"
    then have "email_id r \<in> set ?local" "email_id e \<notin> set ?local"
      using vi by (auto simp: find_user_ids_def)
    then show "email_id r \<noteq> email_id e" by auto
  qed
  from save_fresh_key [OF vu this] obtain new where
    n: "save ?valid (emails w) = emails w @ new" "set (map email_id new) = set (map email_id ?valid)"
       "\<forall>e\<in>set new. userId e = u"
    by blast
  have em: "emails (snd (syncEmailsWithDeletion u ms g w)) = delete_rows u ?deleted (emails w @ new)"
    by (simp only: syncEmailsWithDeletion_emails n(1))
  have ni: "\<forall>e\<in>set new. email_id e \<in> set (map msg_id ms)"
  proof
    fix e assume "e \<in> set new"
    then have "email_id e \<in> set (map email_id new)" by simp
    then have "email_id e \<in> set (map email_id ?valid)" by (simp only: n(2))
    then obtain e' where "e' \<in> set ?valid" "email_id e' = email_id e" by auto
    with vi show "email_id e \<in> set (map msg_id ms)" by metis
  qed
  have own: "\<forall>e\<in>set (emails w). userId e = u \<longrightarrow>
      (e \<in> set (emails (snd (syncEmailsWithDeletion u ms g w))) \<longleftrightarrow>
       email_id e \<in> set (map msg_id ms))"
  proof (intro ballI impI)
    fix e assume e: "e \<in> set (emails w)" "userId e = u"
    then have "email_id e \<in> set ?local"
      by (simp add: find_user_ids_mem) blast
    then have "email_id e \<in> set ?deleted \<longleftrightarrow> email_id e \<notin> set (map msg_id ms)"
      by (simp only: del) blast
    moreover have "e \<in> set (delete_rows u ?deleted (emails w @ new)) \<longleftrightarrow>
        email_id e \<notin> set ?deleted"
      using e by (simp add: delete_rows_mem)
    ultimately show "e \<in> set (emails (snd (syncEmailsWithDeletion u ms g w))) \<longleftrightarrow>
       email_id e \<in> set (map msg_id ms)"
      by (simp only: em) blast
  qed
  have others: "\<forall>e\<in>set (emails w). userId e \<noteq> u \<longrightarrow>
      e \<in> set (emails (snd (syncEmailsWithDeletion u ms g w)))"
    by (simp only: em) (simp add: delete_rows_mem)
  have after: "\<forall>e\<in>set (emails (snd (syncEmailsWithDeletion u ms g w))). userId e = u \<longrightarrow>
      email_id e \<in> set (map msg_id ms)"
  proof (intro ballI impI)
    fix e assume "e \<in> set (emails (snd (syncEmailsWithDeletion u ms g w)))" and u: "userId e = u"
    then have "e \<in> set (delete_rows u ?deleted (emails w @ new))" by (simp only: em)
    then have m: "e \<in> set (emails w) \<or> e \<in> set new" and nd: "email_id e \<notin> set ?deleted"
      using u by (simp_all add: delete_rows_mem)
    from m show "email_id e \<in> set (map msg_id ms)"
    proof
      assume a: "e \<in> set (emails w)"
      then have "email_id e \<in> set ?local"
        using u by (simp add: find_user_ids_mem) blast
      with nd show ?thesis by (simp only: del) blast
    next
      assume "e \<in> set new"
      with ni show ?thesis by blast
    qed
  qed
  from del dis own others after show ?thesis by blast
qed

theorem diff_mode_deletes_local_minus_remote_witness:
  "snd (fst (syncEmailsWithDeletion 1 [ex_msg ''A'', ex_msg ''C''] ex_client
       (ex_world [ex_row ''A'' 1, ex_row ''B'' 1, ex_row ''C'' 1, ex_row ''B'' 2] None))) = [''B''] \<and>
   ex_row ''A'' 1 \<in> set (emails (snd (syncEmailsWithDeletion 1 [ex_msg ''A'', ex_msg ''C''] ex_client
       (ex_world [ex_row ''A'' 1, ex_row ''B'' 1, ex_row ''C'' 1, ex_row ''B'' 2] None)))) \<and>
   ex_row ''C'' 1 \<in> set (emails (snd (syncEmailsWithDeletion 1 [ex_msg ''A'', ex_msg ''C''] ex_client
       (ex_world [ex_row ''A'' 1, ex_row ''B'' 1, ex_row ''C'' 1, ex_row ''B'' 2] None)))) \<and>
   ex_row ''B'' 1 \<notin> set (emails (snd (syncEmailsWithDeletion 1 [ex_msg ''A'', ex_msg ''C''] ex_client
       (ex_world [ex_row ''A'' 1, ex_row ''B'' 1, ex_row ''C'' 1, ex_row ''B'' 2] None)))) \<and>
   ex_row ''B'' 2 \<in> set (emails (snd (syncEmailsWithDeletion 1 [ex_msg ''A'', ex_msg ''C''] ex_client
       (ex_world [ex_row ''A'' 1, ex_row ''B'' 1, ex_row ''C'' 1, ex_row ''B'' 2] None))))"
proof -
  let ?W = "ex_world [ex_row ''A'' 1, ex_row ''B'' 1, ex_row ''C'' 1, ex_row ''B'' 2] None"
  let ?r = "syncEmailsWithDeletion 1 [ex_msg ''A'', ex_msg ''C''] ex_client ?W"
  have d: "snd (fst ?r) = [''B'']"
    by (simp add: syncEmailsWithDeletion_deleted find_user_ids_def ex_defs)
  have "emails ?W = [ex_row ''A'' 1, ex_row ''B'' 1, ex_row ''C'' 1, ex_row ''B'' 2]"
    by (simp add: ex_world_def)
  then show ?thesis
    using d diff_mode_deletes_local_minus_remote [of 1 "[ex_msg ''A'', ex_msg ''C'']" ex_client ?W]
    by (simp add: ex_row_def ex_msg_def)
qed


subsection \<open>User scoping of the existence check\<close>

text \<open>
  Claim C6, on the code. The existence query of \<^verbatim>\<open>processAndSaveBatch\<close> selects by id
  alone. An id that is stored, but not for this user, is therefore not fetched, not
  returned and still not stored for this user after the call, whatever the candidates
  are. In the example the store holds \<^verbatim>\<open>m1\<close> for user 2 only, and the call for user 1
  with candidate \<^verbatim>\<open>m1\<close> returns nothing and leaves the world as it is.
\<close>

theorem batch_skips_id_of_other_user:
  assumes "i \<in> stored_ids w"
    and "i \<notin> set (find_user_ids u (emails w))"
  shows "i \<notin> set (fetched_ids (new_actions w (snd (processAndSaveBatch u ms g w)))) \<and>
         i \<notin> set (fst (processAndSaveBatch u ms g w)) \<and>
         i \<notin> set (find_user_ids u (emails (snd (processAndSaveBatch u ms g w))))"
proof -
  let ?r = "fst (processAndSaveBatch u ms g w)"
  have a: "i \<notin> set (fetched_ids (new_actions w (snd (processAndSaveBatch u ms g w))))"
    using assms(1) by (auto simp: processAndSaveBatch_fetched)
  have b: "i \<notin> set ?r"
    using assms(1) processAndSaveBatch_fresh [of u ms g w] by blast
  obtain new where n: "emails (snd (processAndSaveBatch u ms g w)) = emails w @ new"
    "set (map email_id new) = set ?r"
    using processAndSaveBatch_appends [of u ms g w] by blast
  from b n(2) have "i \<notin> set (map email_id new)"
    by simp
  then have "i \<notin> set (find_user_ids u new)"
    by (simp add: find_user_ids_mem) blast
  with assms(2) have c: "i \<notin> set (find_user_ids u (emails (snd (processAndSaveBatch u ms g w))))"
    by (simp add: n(1) find_user_ids_def)
  from a b c show ?thesis by blast
qed

theorem batch_skips_id_of_other_user_witness:
  "''m1'' \<in> stored_ids (ex_world [ex_row ''m1'' 2] None) \<and>
   find_user_ids 1 (emails (ex_world [ex_row ''m1'' 2] None)) = [] \<and>
   ''m1'' \<notin> set (fetched_ids (new_actions (ex_world [ex_row ''m1'' 2] None)
      (snd (processAndSaveBatch 1 [ex_msg ''m1''] ex_client (ex_world [ex_row ''m1'' 2] None))))) \<and>
   ''m1'' \<notin> set (find_user_ids 1 (emails
      (snd (processAndSaveBatch 1 [ex_msg ''m1''] ex_client (ex_world [ex_row ''m1'' 2] None))))) \<and>
   processAndSaveBatch 1 [ex_msg ''m1''] ex_client (ex_world [ex_row ''m1'' 2] None) =
     ([], ex_world [ex_row ''m1'' 2] None)"
proof -
  have a: "''m1'' \<in> stored_ids (ex_world [ex_row ''m1'' 2] None)"
    by (simp add: stored_ids_def ex_world_def ex_row_def)
  have b: "find_user_ids 1 (emails (ex_world [ex_row ''m1'' 2] None)) = []"
    by (simp add: find_user_ids_def ex_world_def ex_row_def)
  then have b': "''m1'' \<notin> set (find_user_ids 1 (emails (ex_world [ex_row ''m1'' 2] None)))"
    by simp
  have c: "processAndSaveBatch 1 [ex_msg ''m1''] ex_client (ex_world [ex_row ''m1'' 2] None) =
     ([], ex_world [ex_row ''m1'' 2] None)"
    by (simp add: handler_defs ex_defs)
  show ?thesis
    using a b c batch_skips_id_of_other_user [OF a b', of "[ex_msg ''m1'']" ex_client]
    by simp
qed

subsection \<open>Cold start\<close>

text \<open>
  Claim C2. For a user with no stored cursor whose profile call succeeds and reports a
  history id (a non-empty string), \<^verbatim>\<open>syncEmailsWithHistory\<close> returns empty added and
  deleted lists, leaves the email table as it is, does nothing but fetch the profile
  and write the cursor (so it saves and deletes no row), and the stored cursor is
  afterwards exactly the reported history id.
\<close>

theorem cold_start_seeds_cursor:
  assumes "getLastHistoryId u w = None"
    and "getProfile R u = Inr p"
    and "p_historyId p = Some h"
    and "h \<noteq> []"
  shows "fst (syncEmailsWithHistory R u w) = Inr ([], []) \<and>
         emails (snd (syncEmailsWithHistory R u w)) = emails w \<and>
         new_actions w (snd (syncEmailsWithHistory R u w)) = [Call_profile u, Set_cursor u h] \<and>
         getLastHistoryId u (snd (syncEmailsWithHistory R u w)) = Some h"
  using assms
  by (simp add: syncEmailsWithHistory_def truthy_def getLastHistoryId_def
        updateLastHistoryId_def log_actions_def new_actions_def Let_def)

theorem cold_start_seeds_cursor_witness:
  "getLastHistoryId 1 (ex_world [ex_row ''m0'' 1] None) = None \<and>
   getProfile ex_remote 1 = Inr \<lparr>p_historyId = Some ''500''\<rparr> \<and>
   fst (syncEmailsWithHistory ex_remote 1 (ex_world [ex_row ''m0'' 1] None)) = Inr ([], []) \<and>
   emails (snd (syncEmailsWithHistory ex_remote 1 (ex_world [ex_row ''m0'' 1] None))) =
     [ex_row ''m0'' 1] \<and>
   getLastHistoryId 1 (snd (syncEmailsWithHistory ex_remote 1 (ex_world [ex_row ''m0'' 1] None))) =
     Some ''500''"
proof -
  have a: "getLastHistoryId 1 (ex_world [ex_row ''m0'' 1] None) = None"
    by (simp add: getLastHistoryId_def ex_world_def)
  have b: "getProfile ex_remote 1 = Inr \<lparr>p_historyId = Some ''500''\<rparr>"
    by (simp add: ex_remote_def)
  have c: "p_historyId \<lparr>p_historyId = Some ''500''\<rparr> = Some ''500''"
    by simp
  have d: "''500'' \<noteq> []"
    by simp
  show ?thesis
    using a b cold_start_seeds_cursor [OF a b c d] by (simp add: ex_world_def)
qed

subsection \<open>The cursor on a page with a continuation token\<close>

lemma processHistoryRecords_cursor:
  assumes "getAuthenticatedGmailClient R u = Inr g"
    and "historyId hr = Some h"
    and "h \<noteq> []"
  shows "\<exists>r. fst (processHistoryRecords R u hr w) = Inr r"
    and "lastHistoryId (snd (processHistoryRecords R u hr w)) u = Some h"
  using assms
  by (simp_all add: processHistoryRecords_def Let_def split_beta updateLastHistoryId_def
        log_actions_def)

text \<open>
  Claim C1, on the code. When the listener handles a history-page request whose
  response carries a continuation token and reports a history id, the stored cursor is
  that history id as soon as the page is processed: \<^verbatim>\<open>processHistoryRecords\<close> writes
  the cursor for every page that reports one, before the listener looks at the
  continuation token. In the example user 1 has cursor 100, the page carries the token
  \<^verbatim>\<open>tok\<close> and history id 200; the follow-up request for \<^verbatim>\<open>tok\<close> is emitted and the
  cursor is already 200.
\<close>

theorem continuation_page_advances_cursor:
  assumes "pageCount ev = 1"
    and "truthy (pageToken ev)"
    and "getMailboxHistory R (ev_userId ev) None (Some 100) (pageToken ev) = Inr hr"
    and "getAuthenticatedGmailClient R (ev_userId ev) = Inr g"
    and "truthy (nextPageToken hr)"
    and "historyId hr = Some h"
    and "h \<noteq> []"
  shows "getLastHistoryId (ev_userId ev) (handleSyncOldEmails R ev w) = Some h"
proof -
  let ?u = "ev_userId ev"
  let ?w1 = "log_actions [Call_history ?u None (Some 100) (pageToken ev)] w"
  let ?p = "processHistoryRecords R ?u hr ?w1"
  obtain r where r: "fst ?p = Inr r"
    using processHistoryRecords_cursor(1) [OF assms(4) assms(6) assms(7)] by blast
  obtain x y where xy: "r = (x, y)"
    by (cases r)
  define w2 where "w2 = snd ?p"
  have p: "?p = (Inr (x, y), w2)"
    using r xy by (simp add: w2_def prod_eq_iff)
  have c: "lastHistoryId w2 ?u = Some h"
    unfolding w2_def by (rule processHistoryRecords_cursor(2) [OF assms(4) assms(6) assms(7)])
  from assms(1,2,3,5) p c show ?thesis
    by (simp add: handleSyncOldEmails_def Let_def getLastHistoryId_def log_actions_def)
qed

theorem continuation_page_advances_cursor_witness:
  "truthy (nextPageToken ex_page) \<and>
   getLastHistoryId 1 (ex_world [ex_row ''m4'' 1] (Some ''100'')) = Some ''100'' \<and>
   getLastHistoryId 1 (handleSyncOldEmails ex_remote (ex_event (Some ''p1'') 1)
                        (ex_world [ex_row ''m4'' 1] (Some ''100''))) = Some ''200'' \<and>
   filter is_sync_request (trace (handleSyncOldEmails ex_remote (ex_event (Some ''p1'') 1)
                        (ex_world [ex_row ''m4'' 1] (Some ''100'')))) =
     [Emit_sync \<lparr>ev_userId = 1, pageToken = Some ''tok'', pageCount = 1,
                 deletedEmailIds = Some [''m4'']\<rparr>]"
proof -
  let ?ev = "ex_event (Some ''p1'') 1"
  have a: "pageCount ?ev = 1" and b: "truthy (pageToken ?ev)" and u: "ev_userId ?ev = 1"
    by (simp_all add: ex_event_def truthy_def)
  have c: "getMailboxHistory ex_remote (ev_userId ?ev) None (Some 100) (pageToken ?ev) = Inr ex_page"
    by (simp add: ex_remote_def)
  have d: "getAuthenticatedGmailClient ex_remote (ev_userId ?ev) = Inr ex_client"
    by (simp add: ex_remote_def)
  have e: "truthy (nextPageToken ex_page)" and f: "historyId ex_page = Some ''200''"
    by (simp_all add: ex_page_def truthy_def)
  have g: "''200'' \<noteq> []"
    by simp
  have t: "filter is_sync_request (trace (handleSyncOldEmails ex_remote ?ev
                        (ex_world [ex_row ''m4'' 1] (Some ''100'')))) =
     [Emit_sync \<lparr>ev_userId = 1, pageToken = Some ''tok'', pageCount = 1,
                 deletedEmailIds = Some [''m4'']\<rparr>]"
    by (simp add: handler_defs ex_defs)
  have i: "getLastHistoryId 1 (ex_world [ex_row ''m4'' 1] (Some ''100'')) = Some ''100''"
    by (simp add: getLastHistoryId_def ex_world_def)
  show ?thesis
    using e i t continuation_page_advances_cursor [OF a b c d e f g] by (simp add: u)
qed

subsection \<open>A failing history listing\<close>

text \<open>
  Claim C4 fails as stated. User 1 has cursor 100, the history listing is rejected with
  \<open>HistoryExpired\<close> and the profile would report 500. After the first-page request the
  stored cursor is still 100 and the only action is the history call: the cursor is not
  cleared and the profile is not fetched.
\<close>

theorem expired_history_keeps_stale_cursor:
  "getMailboxHistory expired_remote 1 (Some ''100'') None None = Inl HistoryExpired \<and>
   getProfile expired_remote 1 = Inr \<lparr>p_historyId = Some ''500''\<rparr> \<and>
   getLastHistoryId 1 (ex_world [] (Some ''100'')) = Some ''100'' \<and>
   getLastHistoryId 1 (handleSyncOldEmails expired_remote (ex_event None 0)
                        (ex_world [] (Some ''100''))) = Some ''100'' \<and>
   trace (handleSyncOldEmails expired_remote (ex_event None 0) (ex_world [] (Some ''100''))) =
     [Call_history 1 (Some ''100'') None None]"
  by (simp add: handler_defs ex_defs)

text \<open>
  Claim C4 as amended. When the history listing of a first-page request fails, with
  whatever error, for a user with a stored cursor, the listener catches the error: every
  stored cursor and the email table stay as they were, and the history call is the only
  action (no profile call, no write, no event).
\<close>

theorem history_failure_leaves_cursor:
  assumes "pageCount ev = 0"
    and "truthy (getLastHistoryId (ev_userId ev) w)"
    and "getMailboxHistory R (ev_userId ev) (getLastHistoryId (ev_userId ev) w) None None = Inl err"
  shows "lastHistoryId (handleSyncOldEmails R ev w) = lastHistoryId w \<and>
         emails (handleSyncOldEmails R ev w) = emails w \<and>
         new_actions w (handleSyncOldEmails R ev w) =
           [Call_history (ev_userId ev) (getLastHistoryId (ev_userId ev) w) None None]"
  using assms
  by (simp add: handleSyncOldEmails_def syncEmailsWithHistory_def log_actions_def new_actions_def
        Let_def)

theorem history_failure_leaves_cursor_witness:
  "pageCount (ex_event None 0) = 0 \<and>
   truthy (getLastHistoryId (ev_userId (ex_event None 0)) (ex_world [] (Some ''100''))) \<and>
   getMailboxHistory expired_remote 1 (Some ''100'') None None = Inl HistoryExpired \<and>
   lastHistoryId (handleSyncOldEmails expired_remote (ex_event None 0) (ex_world [] (Some ''100'')))
     = lastHistoryId (ex_world [] (Some ''100'')) \<and>
   new_actions (ex_world [] (Some ''100''))
     (handleSyncOldEmails expired_remote (ex_event None 0) (ex_world [] (Some ''100''))) =
     [Call_history 1 (Some ''100'') None None]"
proof -
  have a: "pageCount (ex_event None 0) = 0"
    by (simp add: ex_event_def)
  have b: "truthy (getLastHistoryId (ev_userId (ex_event None 0)) (ex_world [] (Some ''100'')))"
    by (simp add: truthy_def getLastHistoryId_def ex_event_def ex_world_def)
  have c: "getMailboxHistory expired_remote (ev_userId (ex_event None 0))
             (getLastHistoryId (ev_userId (ex_event None 0)) (ex_world [] (Some ''100'')))
             None None = Inl HistoryExpired"
    by (simp add: expired_remote_def ex_remote_def)
  have d: "getLastHistoryId (ev_userId (ex_event None 0)) (ex_world [] (Some ''100'')) = Some ''100''"
    by (simp add: getLastHistoryId_def ex_event_def ex_world_def)
  have e: "ev_userId (ex_event None 0) = 1"
    by (simp add: ex_event_def)
  have f: "getMailboxHistory expired_remote 1 (Some ''100'') None None = Inl HistoryExpired"
    by (simp add: expired_remote_def ex_remote_def)
  show ?thesis
    using a b f history_failure_leaves_cursor [OF a b c]
    by (simp add: e getLastHistoryId_def ex_world_def)
qed

subsection \<open>The legacy pagination bound\<close>

lemma trace_log_actions: "trace (log_actions as w) = trace w @ as"
  by (simp add: log_actions_def)











subsection \<open>Embedding generation\<close>

lemma upsert_keeps: "r \<in> set rs \<Longrightarrow> row_key r \<noteq> row_key e \<Longrightarrow> r \<in> set (upsert e rs)"
  by (induction rs) (auto simp: row_key_def)

lemma upsert_self: "e \<in> set (upsert e rs)"
  by (induction rs) auto

lemma save_keeps:
  "r \<in> set rows \<Longrightarrow> \<forall>e\<in>set b. row_key e \<noteq> row_key r \<Longrightarrow> r \<in> set (save b rows)"
proof (induction b rule: rev_induct)
  case Nil
  then show ?case by (simp add: save_Nil)
next
  case (snoc e b)
  then have "r \<in> set (save b rows)" and "row_key r \<noteq> row_key e"
    by auto
  then show ?case
    by (simp add: save_snoc upsert_keeps)
qed

lemma save_in:
  "distinct (map row_key b) \<Longrightarrow> s \<in> set b \<Longrightarrow> s \<in> set (save b rows)"
proof (induction b rule: rev_induct)
  case Nil
  then show ?case by simp
next
  case (snoc e b)
  show ?case
  proof (cases "s = e")
    case True
    then show ?thesis by (simp add: save_snoc upsert_self)
  next
    case False
    with snoc.prems have sb: "s \<in> set b" by simp
    from snoc.prems(1) have d: "distinct (map row_key b)" and n: "row_key e \<notin> row_key ` set b"
      by simp_all
    from sb have "row_key s \<in> row_key ` set b" by (rule imageI)
    with n have "row_key s \<noteq> row_key e" by metis
    moreover from snoc.IH [OF d sb] have "s \<in> set (save b rows)" .
    ultimately show ?thesis
      by (simp add: save_snoc upsert_keeps)
  qed
qed

lemma map_filter_mem: "s \<in> set (List.map_filter f xs) \<longleftrightarrow> (\<exists>x\<in>set xs. f x = Some s)"
  by (induction xs) (auto split: option.splits)

lemma emailsToProcess_length: "length (emailsToProcess u ids w) \<le> 10"
  by (simp add: emailsToProcess_def BATCH_SIZE_def)

lemma emailsToProcess_set:
  "e \<in> set (emailsToProcess u ids w) \<Longrightarrow>
     e \<in> set (emails w) \<and> userId e = u \<and> embedding e = None \<and> email_id e \<in> set ids"
  unfolding emailsToProcess_def by (drule in_set_takeD) simp

lemma emailsToProcess_distinct:
  "distinct (map row_key (emails w)) \<Longrightarrow> distinct (map row_key (emailsToProcess u ids w))"
  unfolding emailsToProcess_def by (simp add: distinct_map_filter distinct_take take_map [symmetric])

lemma embedEmail_key: "embedEmail R e = Some s \<Longrightarrow> row_key s = row_key e"
  by (auto simp: embedEmail_def row_key_def split: sum.splits)

lemma embedEmail_keys:
  "row_key ` set (List.map_filter (embedEmail R) xs) \<subseteq> row_key ` set xs"
proof
  fix k assume "k \<in> row_key ` set (List.map_filter (embedEmail R) xs)"
  then obtain s where s: "s \<in> set (List.map_filter (embedEmail R) xs)" and k: "k = row_key s"
    by blast
  from s obtain x where x: "x \<in> set xs" and e: "embedEmail R x = Some s"
    by (auto simp: map_filter_mem)
  from e have "row_key s = row_key x" by (rule embedEmail_key)
  with k have "k = row_key x" by simp
  with x show "k \<in> row_key ` set xs" by (rule rev_image_eqI)
qed

lemma embedEmail_distinct:
  "distinct (map row_key xs) \<Longrightarrow> distinct (map row_key (List.map_filter (embedEmail R) xs))"
proof (induction xs)
  case Nil
  then show ?case by simp
next
  case (Cons x xs)
  then have d: "distinct (map row_key (List.map_filter (embedEmail R) xs))"
    and n: "row_key x \<notin> row_key ` set xs"
    by simp_all
  show ?case
  proof (cases "embedEmail R x")
    case None
    with d show ?thesis by simp
  next
    case (Some s)
    then have k: "row_key s = row_key x" by (rule embedEmail_key)
    from n embedEmail_keys [of R xs]
    have "row_key x \<notin> row_key ` set (List.map_filter (embedEmail R) xs)" by blast
    with d k Some show ?thesis by simp
  qed
qed

lemma valid_embedding_iff:
  "s \<in> set (filter (\<lambda>e. embedding e \<noteq> None) (List.map_filter (embedEmail R) xs)) \<longleftrightarrow>
     (\<exists>e\<in>set xs. \<exists>v. generateEmbedding R (prepareTextForEmbedding e) = Inr v \<and>
        length v = 1536 \<and> s = e\<lparr>embedding := Some v\<rparr>)"
proof -
  have "embedEmail R e = Some s \<and> embedding s \<noteq> None \<longleftrightarrow>
      (\<exists>v. generateEmbedding R (prepareTextForEmbedding e) = Inr v \<and>
        length v = 1536 \<and> s = e\<lparr>embedding := Some v\<rparr>)" for e
    by (cases "generateEmbedding R (prepareTextForEmbedding e)")
       (auto simp: embedEmail_def)
  then show ?thesis
    by (simp add: map_filter_mem) blast
qed

lemma embedding_calls_append:
  "embedding_calls (xs @ ys) = embedding_calls xs @ embedding_calls ys"
  by (simp add: embedding_calls_def)

lemma embedding_calls_save: "embedding_calls [Db_save b] = []"
  by (simp add: embedding_calls_def)

lemma embedding_calls_texts:
  "embedding_calls (map (\<lambda>e. Call_embedding (prepareTextForEmbedding e)) xs) =
     map prepareTextForEmbedding xs"
  by (induction xs) (simp_all add: embedding_calls_def)

lemma saved_rows_texts:
  "saved_rows (map (\<lambda>e. Call_embedding (prepareTextForEmbedding e)) xs) = []"
  by (induction xs) (simp_all add: saved_rows_def)

lemma generateEmbeddings_eq:
  "generateEmbeddingsForEmails R u ids w =
     (let sel = emailsToProcess u ids w;
          valid = filter (\<lambda>e. embedding e \<noteq> None) (List.map_filter (embedEmail R) sel);
          w1 = log_actions (map (\<lambda>e. Call_embedding (prepareTextForEmbedding e)) sel) w
      in if sel = [] then ([], w)
         else (filter (\<lambda>i. i \<notin> set (map email_id sel)) ids,
               if valid = [] then w1
               else log_actions [Db_save valid] (w1\<lparr>emails := save valid (emails w)\<rparr>)))"
  by (simp add: generateEmbeddingsForEmails_def Let_def map_filter_id_map log_actions_def)

lemma generateEmbeddings_emails:
  "emails (snd (generateEmbeddingsForEmails R u ids w)) =
     save (filter (\<lambda>e. embedding e \<noteq> None)
             (List.map_filter (embedEmail R) (emailsToProcess u ids w))) (emails w)"
  by (simp add: generateEmbeddings_eq Let_def log_actions_def save_Nil)

lemma generateEmbeddings_saved:
  "saved_rows (new_actions w (snd (generateEmbeddingsForEmails R u ids w))) =
     filter (\<lambda>e. embedding e \<noteq> None)
       (List.map_filter (embedEmail R) (emailsToProcess u ids w))"
  by (simp add: generateEmbeddings_eq Let_def new_actions_def trace_log_actions
        saved_rows_append saved_rows_texts)
     (simp add: saved_rows_def)

lemma generateEmbeddings_calls:
  "embedding_calls (new_actions w (snd (generateEmbeddingsForEmails R u ids w))) =
     map prepareTextForEmbedding (emailsToProcess u ids w)"
  by (simp add: generateEmbeddings_eq Let_def new_actions_def trace_log_actions
        embedding_calls_texts embedding_calls_append embedding_calls_save)
     (simp add: embedding_calls_def)


text \<open>
  Claim C10 fails as stated. With an empty store and the id list \<open>[x]\<close> no email is
  selected, so the input minus the selected ids is \<open>[x]\<close>; the call returns the empty
  list.
\<close>

theorem embedding_of_unselected_ids_counterexample:
  "emailsToProcess 1 [''x''] (ex_world [] None) = [] \<and>
   fst (generateEmbeddingsForEmails ex_remote 1 [''x''] (ex_world [] None)) = [] \<and>
   fst (generateEmbeddingsForEmails ex_remote 1 [''x''] (ex_world [] None)) \<noteq> [''x'']"
  by (simp add: generateEmbeddingsForEmails_def emailsToProcess_def ex_world_def)

text \<open>
  Claim C10 as amended. \<^verbatim>\<open>generateEmbeddingsForEmails\<close> selects at most 10 emails and
  requests one embedding for each; every selected email is stored, belongs to the user,
  lacks an embedding and has one of the given ids. When none is selected the call returns
  the empty list and leaves the world as it is; otherwise it returns the given ids minus
  the selected ones. The rows handed to \<^verbatim>\<open>save\<close> are exactly the selected emails whose
  generated vector has length 1536, with that vector attached; every row stored afterwards
  is a row stored before or one of these; and a stored row whose \<^verbatim>\<open>(userId, id)\<close> is
  not that of a saved row stays as it was. When \<^verbatim>\<open>(userId, id)\<close> is unique in the store,
  every saved row is stored afterwards and every selected email whose embedding failed or
  has another length is still stored unchanged.
\<close>

theorem embedding_batch:
  "length (emailsToProcess u ids w) \<le> 10 \<and>
   embedding_calls (new_actions w (snd (generateEmbeddingsForEmails R u ids w))) =
     map prepareTextForEmbedding (emailsToProcess u ids w) \<and>
   (\<forall>e\<in>set (emailsToProcess u ids w).
      e \<in> set (emails w) \<and> userId e = u \<and> embedding e = None \<and> email_id e \<in> set ids) \<and>
   (emailsToProcess u ids w = [] \<longrightarrow> generateEmbeddingsForEmails R u ids w = ([], w)) \<and>
   (emailsToProcess u ids w \<noteq> [] \<longrightarrow>
      fst (generateEmbeddingsForEmails R u ids w) =
        filter (\<lambda>i. i \<notin> set (map email_id (emailsToProcess u ids w))) ids) \<and>
   (\<forall>s. s \<in> set (saved_rows (new_actions w (snd (generateEmbeddingsForEmails R u ids w)))) \<longleftrightarrow>
      (\<exists>e\<in>set (emailsToProcess u ids w). \<exists>v.
         generateEmbedding R (prepareTextForEmbedding e) = Inr v \<and> length v = 1536 \<and>
         s = e\<lparr>embedding := Some v\<rparr>)) \<and>
   (\<forall>r\<in>set (emails (snd (generateEmbeddingsForEmails R u ids w))).
      r \<in> set (emails w) \<or>
      r \<in> set (saved_rows (new_actions w (snd (generateEmbeddingsForEmails R u ids w))))) \<and>
   (\<forall>e\<in>set (emails w).
      (\<forall>s\<in>set (saved_rows (new_actions w (snd (generateEmbeddingsForEmails R u ids w)))).
         row_key s \<noteq> row_key e) \<longrightarrow>
      e \<in> set (emails (snd (generateEmbeddingsForEmails R u ids w)))) \<and>
   (distinct (map row_key (emails w)) \<longrightarrow>
      (\<forall>s\<in>set (saved_rows (new_actions w (snd (generateEmbeddingsForEmails R u ids w)))).
         s \<in> set (emails (snd (generateEmbeddingsForEmails R u ids w)))) \<and>
      (\<forall>e\<in>set (emailsToProcess u ids w).
         (\<forall>v. generateEmbedding R (prepareTextForEmbedding e) = Inr v \<longrightarrow> length v \<noteq> 1536) \<longrightarrow>
         e \<in> set (emails (snd (generateEmbeddingsForEmails R u ids w)))))"
proof -
  let ?sel = "emailsToProcess u ids w"
  let ?G = "generateEmbeddingsForEmails R u ids w"
  let ?valid = "filter (\<lambda>e. embedding e \<noteq> None) (List.map_filter (embedEmail R) ?sel)"
  let ?saved = "saved_rows (new_actions w (snd ?G))"
  have sv: "?saved = ?valid"
    by (rule generateEmbeddings_saved)
  have em: "emails (snd ?G) = save ?valid (emails w)"
    by (rule generateEmbeddings_emails)
  have c1: "length ?sel \<le> 10"
    by (rule emailsToProcess_length)
  have c2: "embedding_calls (new_actions w (snd ?G)) = map prepareTextForEmbedding ?sel"
    by (rule generateEmbeddings_calls)
  have c3: "\<forall>e\<in>set ?sel.
      e \<in> set (emails w) \<and> userId e = u \<and> embedding e = None \<and> email_id e \<in> set ids"
    by (blast dest: emailsToProcess_set)
  have c4: "?sel = [] \<longrightarrow> ?G = ([], w)"
    by (simp add: generateEmbeddings_eq)
  have c5: "?sel \<noteq> [] \<longrightarrow> fst ?G = filter (\<lambda>i. i \<notin> set (map email_id ?sel)) ids"
    by (simp add: generateEmbeddings_eq Let_def)
  have c6: "\<forall>s. s \<in> set ?saved \<longleftrightarrow>
      (\<exists>e\<in>set ?sel. \<exists>v.
         generateEmbedding R (prepareTextForEmbedding e) = Inr v \<and> length v = 1536 \<and>
         s = e\<lparr>embedding := Some v\<rparr>)"
    by (simp only: sv valid_embedding_iff) simp
  have c7: "\<forall>r\<in>set (emails (snd ?G)). r \<in> set (emails w) \<or> r \<in> set ?saved"
    using save_subset [of ?valid "emails w"] by (simp only: sv em) blast
  have c8: "\<forall>e\<in>set (emails w). (\<forall>s\<in>set ?saved. row_key s \<noteq> row_key e) \<longrightarrow>
      e \<in> set (emails (snd ?G))"
    by (simp only: sv em) (blast intro: save_keeps)
  have c9: "distinct (map row_key (emails w)) \<longrightarrow>
      (\<forall>s\<in>set ?saved. s \<in> set (emails (snd ?G))) \<and>
      (\<forall>e\<in>set ?sel.
         (\<forall>v. generateEmbedding R (prepareTextForEmbedding e) = Inr v \<longrightarrow> length v \<noteq> 1536) \<longrightarrow>
         e \<in> set (emails (snd ?G)))"
  proof
    assume d: "distinct (map row_key (emails w))"
    then have "distinct (map row_key ?sel)"
      by (rule emailsToProcess_distinct)
    then have "distinct (map row_key (List.map_filter (embedEmail R) ?sel))"
      by (rule embedEmail_distinct)
    then have dv: "distinct (map row_key ?valid)"
      by (rule distinct_map_filter)
    have p: "\<forall>s\<in>set ?saved. s \<in> set (emails (snd ?G))"
      by (simp only: sv em) (blast intro: save_in [OF dv])
    have q: "\<forall>e\<in>set ?sel.
         (\<forall>v. generateEmbedding R (prepareTextForEmbedding e) = Inr v \<longrightarrow> length v \<noteq> 1536) \<longrightarrow>
         e \<in> set (emails (snd ?G))"
    proof (intro ballI impI)
      fix e assume e: "e \<in> set ?sel"
        and bad: "\<forall>v. generateEmbedding R (prepareTextForEmbedding e) = Inr v \<longrightarrow> length v \<noteq> 1536"
      from e c3 have ew: "e \<in> set (emails w)" by blast
      have "\<forall>s\<in>set ?saved. row_key s \<noteq> row_key e"
      proof
        fix s assume "s \<in> set ?saved"
        with c6 obtain e' v where e': "e' \<in> set ?sel"
          and g: "generateEmbedding R (prepareTextForEmbedding e') = Inr v" "length v = 1536"
          and s: "s = e'\<lparr>embedding := Some v\<rparr>"
          by blast
        from e' c3 have e'w: "e' \<in> set (emails w)" by blast
        show "row_key s \<noteq> row_key e"
        proof
          assume "row_key s = row_key e"
          with s have "row_key e' = row_key e" by (simp add: row_key_def)
          with d ew e'w have "e' = e"
            by (meson distinct_map inj_onD)
          with g bad show False by blast
        qed
      qed
      with c8 ew show "e \<in> set (emails (snd ?G))" by blast
    qed
    from p q show "(\<forall>s\<in>set ?saved. s \<in> set (emails (snd ?G))) \<and>
      (\<forall>e\<in>set ?sel.
         (\<forall>v. generateEmbedding R (prepareTextForEmbedding e) = Inr v \<longrightarrow> length v \<noteq> 1536) \<longrightarrow>
         e \<in> set (emails (snd ?G)))" by (rule conjI)
  qed
  show ?thesis
    by (intro conjI) (rule c1 c2 c3 c4 c5 c6 c7 c8 c9)+
qed


theorem embedding_batch_witness:
  "emailsToProcess 1 [''a'', ''b'', ''z'']
     (ex_world [ex_row ''a'' 1, short_row, ex_row ''c'' 2] None) = [ex_row ''a'' 1, short_row] \<and>
   distinct (map row_key (emails (ex_world [ex_row ''a'' 1, short_row, ex_row ''c'' 2] None))) \<and>
   generateEmbedding short_remote (prepareTextForEmbedding short_row) = Inr [0] \<and>
   fst (generateEmbeddingsForEmails short_remote 1 [''a'', ''b'', ''z'']
          (ex_world [ex_row ''a'' 1, short_row, ex_row ''c'' 2] None)) = [''z''] \<and>
   (ex_row ''a'' 1)\<lparr>embedding := Some (replicate 1536 0)\<rparr> \<in>
     set (emails (snd (generateEmbeddingsForEmails short_remote 1 [''a'', ''b'', ''z'']
          (ex_world [ex_row ''a'' 1, short_row, ex_row ''c'' 2] None)))) \<and>
   short_row \<in>
     set (emails (snd (generateEmbeddingsForEmails short_remote 1 [''a'', ''b'', ''z'']
          (ex_world [ex_row ''a'' 1, short_row, ex_row ''c'' 2] None))))"
proof -
  let ?W = "ex_world [ex_row ''a'' 1, short_row, ex_row ''c'' 2] None"
  let ?ids = "[''a'', ''b'', ''z'']"
  let ?G = "generateEmbeddingsForEmails short_remote 1 ?ids ?W"
  let ?saved = "saved_rows (new_actions ?W (snd ?G))"
  note T = embedding_batch [of 1 ?ids ?W short_remote]
  have sel: "emailsToProcess 1 ?ids ?W = [ex_row ''a'' 1, short_row]"
    by (simp add: emailsToProcess_def BATCH_SIZE_def ex_world_def ex_row_def short_row_def)
  have d: "distinct (map row_key (emails ?W))"
    by (simp add: row_key_def ex_world_def ex_row_def short_row_def)
  have ta: "prepareTextForEmbedding (ex_row ''a'' 1) \<noteq> prepareTextForEmbedding short_row"
    by (simp add: prepareTextForEmbedding_def trim_def WhiteSpace_def white_prefix_def truthy_def ex_row_def
          short_row_def)
  have ga: "generateEmbedding short_remote (prepareTextForEmbedding (ex_row ''a'' 1)) =
      Inr (replicate 1536 0)"
    using ta by (simp add: short_remote_def)
  have gb: "generateEmbedding short_remote (prepareTextForEmbedding short_row) = Inr [0]"
    by (simp add: short_remote_def)
  from T sel have r: "fst ?G = [''z'']"
    by (simp add: ex_row_def short_row_def)
  from T have c6: "\<And>s. s \<in> set ?saved \<longleftrightarrow>
      (\<exists>e\<in>set (emailsToProcess 1 ?ids ?W). \<exists>v.
         generateEmbedding short_remote (prepareTextForEmbedding e) = Inr v \<and> length v = 1536 \<and>
         s = e\<lparr>embedding := Some v\<rparr>)"
    by blast
  from T d have c9a: "\<forall>s\<in>set ?saved. s \<in> set (emails (snd ?G))"
    and c9b: "\<forall>e\<in>set (emailsToProcess 1 ?ids ?W).
         (\<forall>v. generateEmbedding short_remote (prepareTextForEmbedding e) = Inr v \<longrightarrow>
              length v \<noteq> 1536) \<longrightarrow>
         e \<in> set (emails (snd ?G))"
    by blast+
  have "(ex_row ''a'' 1)\<lparr>embedding := Some (replicate 1536 0)\<rparr> \<in> set ?saved"
    unfolding c6 sel using ga by simp
  with c9a have a: "(ex_row ''a'' 1)\<lparr>embedding := Some (replicate 1536 0)\<rparr> \<in>
      set (emails (snd ?G))"
    by blast
  have "short_row \<in> set (emailsToProcess 1 ?ids ?W)"
    by (simp add: sel)
  with c9b gb have b: "short_row \<in> set (emails (snd ?G))"
    by simp
  from sel d gb r a b show ?thesis
    by (intro conjI)
qed


end
